theory Spec2Isabelle
  imports Main "HOL-Library.Word" "HOL-Library.AList"
begin

unbundle bit_operations_syntax

chapter \<open>The worklet factory of the Reanimated Babel plugin\<close>

text \<open>
  A shallow embedding of \<^verbatim>\<open>plugin/src/workletFactory.ts\<close>: the identity hash, the
  worklet name, the closure analysis, the directive stripper and the assembly of the
  wrapper function. All definitions come first; the theorems follow.
\<close>

section \<open>Definitions\<close>

subsection \<open>JavaScript numbers and strings\<close>

text \<open>
  A JavaScript string is a sequence of UTF-16 code units, so \<^verbatim>\<open>charCodeAt\<close> yields a
  value in \<open>0..65535\<close>. Numbers are IEEE doubles; every number that \<^verbatim>\<open>hash\<close> computes is
  an integer of magnitude below \<open>2 ^ 53\<close> (an accumulator is an int32 after its first
  update, so a product with 33 stays below \<open>2 ^ 37\<close>, and the result is below
  \<open>2 ^ 45\<close>), where double arithmetic is exact. They are modelled as \<open>int\<close>, with the
  conversions of the bitwise operators written out as in ECMAScript.
\<close>

type_synonym js_string = "16 word list"

definition ToInt32 :: "int \<Rightarrow> int" where
  "ToInt32 x = (let int32bit = x mod 2 ^ 32 in
                if int32bit \<ge> 2 ^ 31 then int32bit - 2 ^ 32 else int32bit)"

definition ToUint32 :: "int \<Rightarrow> int" where
  "ToUint32 x = x mod 2 ^ 32"

text \<open>The operator \<^verbatim>\<open>a ^ b\<close>: both operands through \<open>ToInt32\<close>, then bitwise.\<close>

definition js_xor :: "int \<Rightarrow> int \<Rightarrow> int" where
  "js_xor a b = ToInt32 a XOR ToInt32 b"

text \<open>\<^verbatim>\<open>str.charCodeAt(i)\<close> for \<open>i\<close> inside the string (the loop never leaves it).\<close>

definition charCodeAt :: "js_string \<Rightarrow> nat \<Rightarrow> int" where
  "charCodeAt str i = uint (str ! i)"

subsection \<open>hash\<close>

text \<open>
  \<^verbatim>\<open>while (i--) { ... }\<close>: the test reads \<open>i\<close>, the decrement happens before the body,
  so the body at \<open>Suc i\<close> works on index \<open>i\<close>.
\<close>

fun hash_loop :: "js_string \<Rightarrow> nat \<Rightarrow> int \<Rightarrow> int \<Rightarrow> int \<times> int" where
  "hash_loop str 0 hash1 hash2 = (hash1, hash2)"
| "hash_loop str (Suc i) hash1 hash2 =
     (let char = charCodeAt str i in
      hash_loop str i (js_xor (hash1 * 33) char) (js_xor (hash2 * 33) char))"

text \<open>\<^verbatim>\<open>return (hash1 >>> 0) * 4096 + (hash2 >>> 0)\<close>; \<^verbatim>\<open>x >>> 0\<close> is \<open>ToUint32 x\<close>.\<close>

definition hash :: "js_string \<Rightarrow> int" where
  "hash str = (case hash_loop str (length str) 5381 52711 of
                 (hash1, hash2) \<Rightarrow> ToUint32 hash1 * 4096 + ToUint32 hash2)"

text \<open>
  The algorithm in the words of the specification: two 32-bit accumulators, a scan
  from the last character to the first, \<open>(accumulator * 33) xor charCode\<close> truncated to
  32 bits, both read as unsigned, \<open>hash1 * 4096 + hash2\<close>.
\<close>

definition spec_step :: "32 word \<Rightarrow> 16 word \<Rightarrow> 32 word" where
  "spec_step acc c = (acc * 33) XOR ucast c"

definition spec_hash :: "js_string \<Rightarrow> int" where
  "spec_hash str =
     (let hash1 = foldl spec_step 5381 (rev str);
          hash2 = foldl spec_step 52711 (rev str)
      in uint hash1 * 4096 + uint hash2)"

subsection \<open>Strings of the source text\<close>

text \<open>A literal of the source, as a JavaScript string.\<close>

definition lit :: "string \<Rightarrow> js_string" where
  "lit s = map (\<lambda>c. of_nat (of_char c)) s"

subsection \<open>Syntax nodes read by the closure analysis\<close>

text \<open>
  An \<^verbatim>\<open>Identifier\<close> node carries its \<^verbatim>\<open>name\<close> and its \<^verbatim>\<open>loc\<close> (start and end, each a line
  and a column; \<open>None\<close> where Babel leaves it undefined).
\<close>

type_synonym SourceLocation = "(nat \<times> nat) \<times> (nat \<times> nat)"

datatype Identifier = Identifier (name: js_string) (loc: "SourceLocation option")

text \<open>
  The function being workletized (\<^verbatim>\<open>fun.node\<close>): one of the four node types of
  \<^verbatim>\<open>WorkletizableFunction\<close>. Declarations and function expressions have an \<^verbatim>\<open>id\<close>
  (an identifier or null), an object method has a \<^verbatim>\<open>key\<close> and no \<^verbatim>\<open>id\<close>.
\<close>

datatype object_key = IdentifierKey js_string | OtherKey

datatype fun_node =
    FunctionDeclaration "js_string option"
  | FunctionExpression "js_string option"
  | ArrowFunctionExpression
  | ObjectMethod object_key

text \<open>\<^verbatim>\<open>'id' in fun.node && fun.node.id\<close>, then its name.\<close>

fun fun_id :: "fun_node \<Rightarrow> js_string option" where
  "fun_id (FunctionDeclaration i) = i"
| "fun_id (FunctionExpression i) = i"
| "fun_id ArrowFunctionExpression = None"
| "fun_id (ObjectMethod k) = None"

text \<open>
  What the visitor reads of an \<^verbatim>\<open>Identifier\<close> path that Babel's traversal hands to it:
  the node, Babel's verdict \<^verbatim>\<open>path.isReferencedIdentifier()\<close>, the parent node
  (\<^verbatim>\<open>path.parent\<close>: for a member expression whether this node is its \<^verbatim>\<open>property\<close> and
  whether it is computed; for an object property whether this node is its \<^verbatim>\<open>value\<close>,
  and the flags \<^verbatim>\<open>computed\<close> and \<^verbatim>\<open>shorthand\<close>), whether the grandparent is an object
  expression, and the scope chain: the names bound in \<^verbatim>\<open>path.scope\<close>, then in each
  \<^verbatim>\<open>parent\<close> scope outward until \<^verbatim>\<open>null\<close>.
\<close>

datatype parent_node =
    MemberExpression (node_is_property: bool) (computed: bool)
  | ObjectProperty (node_is_value: bool) (computed: bool) (shorthand: bool)
  | OtherParent

record IdentifierPath =
  node :: Identifier
  isReferencedIdentifier :: bool
  parent :: parent_node
  grandparent_isObjectExpression :: bool
  scope :: "js_string list list"

subsection \<open>makeArrayFromCapturedBindings\<close>

text \<open>
  The two \<^verbatim>\<open>Map\<close>s of the function. A JavaScript \<^verbatim>\<open>Map\<close> iterates in insertion order
  and \<^verbatim>\<open>set\<close> on a key already present replaces the value where it stands: this is
  \<open>AList.update\<close> on an association list.
\<close>

record closure_maps =
  closure :: "(js_string \<times> Identifier) list"
  isLocationAssignedMap :: "(js_string \<times> bool) list"

text \<open>
  \<^verbatim>\<open>while (currentScope != null) { if (currentScope.bindings[name] != null) return;
  currentScope = currentScope.parent; }\<close>: \<open>True\<close> when the walk returns early.
\<close>

fun scope_walk :: "js_string list list \<Rightarrow> js_string \<Rightarrow> bool" where
  "scope_walk [] nm = False"
| "scope_walk (bindings # parent_scopes) nm =
     (if nm \<in> set bindings then True else scope_walk parent_scopes nm)"

text \<open>The visitor of the first traversal (over the lowered tree).\<close>

definition capture_visitor ::
  "js_string set \<Rightarrow> fun_node \<Rightarrow> closure_maps \<Rightarrow> IdentifierPath \<Rightarrow> closure_maps" where
  "capture_visitor globals fun_nd m path =
    (if \<not> isReferencedIdentifier path then m
     else let nm = name (node path) in
       if nm \<in> globals then m
       else if (case fun_id fun_nd of Some i \<Rightarrow> i = nm | None \<Rightarrow> False) then m
       else if (case parent path of
                  MemberExpression is_property is_computed \<Rightarrow> is_property \<and> \<not> is_computed
                | _ \<Rightarrow> False) then m
       else if (case parent path of
                  ObjectProperty is_value is_computed is_shorthand \<Rightarrow>
                    grandparent_isObjectExpression path \<and> \<not> is_value
                | _ \<Rightarrow> False) then m
       else if scope_walk (scope path) nm then m
       else m\<lparr>closure := AList.update nm (node path) (closure m),
              isLocationAssignedMap := AList.update nm False (isLocationAssignedMap m)\<rparr>)"

text \<open>
  The visitor of the second traversal (over the original function). \<^verbatim>\<open>node.loc =
  path.node.loc\<close> writes into the node object that the map holds.
\<close>

definition location_visitor :: "closure_maps \<Rightarrow> IdentifierPath \<Rightarrow> closure_maps" where
  "location_visitor m path =
    (if \<not> isReferencedIdentifier path then m
     else case map_of (closure m) (name (node path)) of
       None \<Rightarrow> m
     | Some nd \<Rightarrow>
         if map_of (isLocationAssignedMap m) (name (node path)) = Some True then m
         else m\<lparr>closure := AList.update (name (node path))
                               (Identifier (name nd) (loc (node path))) (closure m),
                isLocationAssignedMap :=
                  AList.update (name (node path)) True (isLocationAssignedMap m)\<rparr>)"

text \<open>A traversal calls the visitor on each \<^verbatim>\<open>Identifier\<close> path in turn.\<close>

definition capture_traversal ::
  "js_string set \<Rightarrow> fun_node \<Rightarrow> IdentifierPath list \<Rightarrow> closure_maps" where
  "capture_traversal globals fun_nd ast =
     foldl (capture_visitor globals fun_nd) \<lparr>closure = [], isLocationAssignedMap = []\<rparr> ast"

definition location_traversal :: "closure_maps \<Rightarrow> IdentifierPath list \<Rightarrow> closure_maps" where
  "location_traversal m fun_paths = foldl location_visitor m fun_paths"

text \<open>
  \<^verbatim>\<open>globals\<close> is the set imported from \<^verbatim>\<open>./globals\<close>; \<open>ast\<close> and \<open>fun_paths\<close> are the
  \<^verbatim>\<open>Identifier\<close> paths of the lowered tree and of the original function, in the order
  of the traversal. The result is \<^verbatim>\<open>Array.from(closure.values())\<close>.
\<close>

definition makeArrayFromCapturedBindings ::
  "js_string set \<Rightarrow> IdentifierPath list \<Rightarrow> fun_node \<Rightarrow> IdentifierPath list \<Rightarrow> Identifier list" where
  "makeArrayFromCapturedBindings globals ast fun_nd fun_paths =
     map snd (closure (location_traversal (capture_traversal globals fun_nd ast) fun_paths))"

text \<open>
  Notions for stating the properties of the analysis. \<open>registers\<close>: the path passes
  every early return of the first visitor. \<open>discovery_order\<close>: a list without its
  repetitions, each element at its first occurrence. \<open>matching\<close>, \<open>assigned\<close> and
  \<open>relocate\<close>: what the second traversal does to one entry of the map.
\<close>

definition registers :: "js_string set \<Rightarrow> fun_node \<Rightarrow> IdentifierPath \<Rightarrow> bool" where
  "registers globals fun_nd path \<longleftrightarrow>
     isReferencedIdentifier path
   \<and> name (node path) \<notin> globals
   \<and> fun_id fun_nd \<noteq> Some (name (node path))
   \<and> \<not> (\<exists>c. parent path = MemberExpression True c \<and> \<not> c)
   \<and> \<not> (\<exists>c s. parent path = ObjectProperty False c s \<and> grandparent_isObjectExpression path)
   \<and> \<not> scope_walk (scope path) (name (node path))"

fun discovery_order :: "'a list \<Rightarrow> 'a list" where
  "discovery_order [] = []"
| "discovery_order (x # xs) = x # filter (\<lambda>y. y \<noteq> x) (discovery_order xs)"

definition matching :: "js_string \<Rightarrow> IdentifierPath \<Rightarrow> bool" where
  "matching n p \<longleftrightarrow> isReferencedIdentifier p \<and> name (node p) = n"

definition assigned :: "closure_maps \<Rightarrow> js_string \<Rightarrow> bool" where
  "assigned m n \<longleftrightarrow> map_of (isLocationAssignedMap m) n = Some True"

definition relocate :: "closure_maps \<Rightarrow> IdentifierPath list \<Rightarrow> js_string \<times> Identifier \<Rightarrow> js_string \<times> Identifier" where
  "relocate m ps = (\<lambda>(n, nd).
      (n, if assigned m n then nd
          else case find (matching n) ps of
                 None \<Rightarrow> nd
               | Some p \<Rightarrow> Identifier (name nd) (loc (node p))))"

text \<open>
  Example paths. Two references to a free variable \<^verbatim>\<open>x\<close> on different lines; the two
  identifiers of the object literal \<^verbatim>\<open>{ [k]: v }\<close>, where \<^verbatim>\<open>k\<close> is a computed key (a
  reference, by Babel's \<^verbatim>\<open>isReferenced\<close>) and \<^verbatim>\<open>v\<close> the value; and the \<^verbatim>\<open>k\<close> of the
  computed member access \<^verbatim>\<open>obj[k]\<close>.
\<close>

definition ref_x_first :: IdentifierPath where
  "ref_x_first = \<lparr>node = Identifier (lit ''x'') (Some ((2, 9), (2, 10))),
     isReferencedIdentifier = True, parent = OtherParent,
     grandparent_isObjectExpression = False, scope = [ [lit ''a''], []]\<rparr>"

definition ref_x_second :: IdentifierPath where
  "ref_x_second = \<lparr>node = Identifier (lit ''x'') (Some ((3, 9), (3, 10))),
     isReferencedIdentifier = True, parent = OtherParent,
     grandparent_isObjectExpression = False, scope = [ [lit ''a''], []]\<rparr>"

definition computed_key_k :: IdentifierPath where
  "computed_key_k = \<lparr>node = Identifier (lit ''k'') (Some ((2, 12), (2, 13))),
     isReferencedIdentifier = True, parent = ObjectProperty False True False,
     grandparent_isObjectExpression = True, scope = [ [], []]\<rparr>"

definition computed_member_k :: IdentifierPath where
  "computed_member_k = \<lparr>node = Identifier (lit ''k'') (Some ((2, 14), (2, 15))),
     isReferencedIdentifier = True, parent = MemberExpression True True,
     grandparent_isObjectExpression = False, scope = [ [], []]\<rparr>"

definition value_v :: IdentifierPath where
  "value_v = \<lparr>node = Identifier (lit ''v'') (Some ((2, 16), (2, 17))),
     isReferencedIdentifier = True, parent = ObjectProperty True True False,
     grandparent_isObjectExpression = True, scope = [ [], []]\<rparr>"

definition example_maps :: closure_maps where
  "example_maps =
     \<lparr>closure = [(lit ''x'', Identifier (lit ''x'') (Some ((1, 30), (1, 31)))),
                 (lit ''y'', Identifier (lit ''y'') (Some ((1, 34), (1, 35))))],
      isLocationAssignedMap = [(lit ''x'', False), (lit ''y'', True)]\<rparr>"

subsection \<open>removeWorkletDirective\<close>

text \<open>
  The syntax tree under the function, as far as the stripper distinguishes nodes: a
  \<^verbatim>\<open>Directive\<close> with the value of its \<^verbatim>\<open>DirectiveLiteral\<close>; a node for which Babel's
  \<^verbatim>\<open>isFunction\<close> holds, with its type and its children in traversal order; any other
  node, likewise.
\<close>

datatype ast =
    Directive js_string
  | Function js_string "ast list"
  | Other js_string "ast list"

text \<open>
  A \<^verbatim>\<open>NodePath\<close> is identified by the child indices that lead to it from \<^verbatim>\<open>fun\<close>, which
  is the path \<open>[]\<close>. \<open>visit\<close> traverses one node: \<open>functionParent\<close> is the path that
  \<^verbatim>\<open>path.getFunctionParent()\<close> returns there, the nearest enclosing function. The
  visitor fires on a directive literal: \<^verbatim>\<open>path.node.value === 'worklet' &&
  path.getFunctionParent() === fun\<close>, then \<^verbatim>\<open>path.parentPath.remove()\<close> takes the
  directive out of its parent's list.
\<close>

type_synonym node_path = "nat list"

fun visit :: "node_path \<Rightarrow> node_path \<Rightarrow> ast \<Rightarrow> ast list"
and visit_children :: "node_path \<Rightarrow> node_path \<Rightarrow> nat \<Rightarrow> ast list \<Rightarrow> ast list" where
  "visit functionParent path (Directive v) =
     (if v = lit ''worklet'' \<and> functionParent = [] then [] else [Directive v])"
| "visit functionParent path (Function t cs) = [Function t (visit_children path path 0 cs)]"
| "visit functionParent path (Other t cs) = [Other t (visit_children functionParent path 0 cs)]"
| "visit_children functionParent path i [] = []"
| "visit_children functionParent path i (c # cs) =
     visit functionParent (path @ [i]) c @ visit_children functionParent path (Suc i) cs"

text \<open>
  \<^verbatim>\<open>fun.traverse\<close> visits what lies under \<^verbatim>\<open>fun\<close>, which is a function node by its type
  \<^verbatim>\<open>NodePath<WorkletizableFunction>\<close>.
\<close>

fun removeWorkletDirective :: "ast \<Rightarrow> ast" where
  "removeWorkletDirective (Function t cs) = Function t (visit_children [] [] 0 cs)"
| "removeWorkletDirective (Other t cs) = Other t cs"
| "removeWorkletDirective (Directive v) = Directive v"

text \<open>
  The effect in the words of the specification, with no reference to paths: the
  \<^verbatim>\<open>'worklet'\<close> directives that are not inside a nested function disappear; a nested
  function stays as it is, whatever it contains; every other node keeps its type and
  its (processed) children.
\<close>

fun without_own_worklet_directives :: "ast \<Rightarrow> ast list"
and without_own_worklet_directives_list :: "ast list \<Rightarrow> ast list" where
  "without_own_worklet_directives (Directive v) =
     (if v = lit ''worklet'' then [] else [Directive v])"
| "without_own_worklet_directives (Function t cs) = [Function t cs]"
| "without_own_worklet_directives (Other t cs) =
     [Other t (without_own_worklet_directives_list cs)]"
| "without_own_worklet_directives_list [] = []"
| "without_own_worklet_directives_list (c # cs) =
     without_own_worklet_directives c @ without_own_worklet_directives_list cs"

fun children :: "ast \<Rightarrow> ast list" where
  "children (Directive v) = []"
| "children (Function t cs) = cs"
| "children (Other t cs) = cs"

fun own_directives :: "ast \<Rightarrow> js_string list"
and own_directives_list :: "ast list \<Rightarrow> js_string list" where
  "own_directives (Directive v) = [v]"
| "own_directives (Function t cs) = []"
| "own_directives (Other t cs) = own_directives_list cs"
| "own_directives_list [] = []"
| "own_directives_list (c # cs) = own_directives c @ own_directives_list cs"

fun nested_functions :: "ast \<Rightarrow> ast list"
and nested_functions_list :: "ast list \<Rightarrow> ast list" where
  "nested_functions (Directive v) = []"
| "nested_functions (Function t cs) = [Function t cs]"
| "nested_functions (Other t cs) = nested_functions_list cs"
| "nested_functions_list [] = []"
| "nested_functions_list (c # cs) = nested_functions c @ nested_functions_list cs"

text \<open>
  \<^verbatim>\<open>function f() { 'worklet'; 'use strict'; return () => { 'worklet'; }; }\<close>
\<close>

definition example_function :: ast where
  "example_function = Function (lit ''FunctionDeclaration'')
     [Other (lit ''Identifier'') [],
      Other (lit ''BlockStatement'')
        [Directive (lit ''worklet''), Directive (lit ''use strict''),
         Other (lit ''ReturnStatement'')
           [Function (lit ''ArrowFunctionExpression'')
              [Other (lit ''BlockStatement'') [Directive (lit ''worklet'')]]]]]"

subsection \<open>makeWorkletName\<close>

text \<open>
  The template literal \<^verbatim>\<open>`${source}${state.workletNumber++}`\<close> renders the counter, a
  non-negative integer, in decimal. The counter counts the worklets of one file and is
  far below \<open>2 ^ 53\<close>, where \<^verbatim>\<open>++\<close> on a double is exact: it is a \<open>nat\<close> here.
\<close>

fun decimal :: "nat \<Rightarrow> js_string" where
  "decimal n = (if n < 10 then [of_nat (48 + n)]
                else decimal (n div 10) @ [of_nat (48 + n mod 10)])"

declare decimal.simps [simp del]

text \<open>\<^verbatim>\<open>filepath.split('/')\<close> and \<^verbatim>\<open>splitFilepath.indexOf('node_modules')\<close>.\<close>

fun js_split :: "16 word \<Rightarrow> js_string \<Rightarrow> js_string list" where
  "js_split separator [] = [ [] ]"
| "js_split separator (c # cs) =
     (if c = separator then [] # js_split separator cs
      else case js_split separator cs of
             [] \<Rightarrow> [ [c] ]
           | segment # segments \<Rightarrow> (c # segment) # segments)"

fun indexOf :: "'a list \<Rightarrow> 'a \<Rightarrow> nat option" where
  "indexOf [] x = None"
| "indexOf (y # ys) x = (if y = x then Some 0 else map_option Suc (indexOf ys x))"

text \<open>
  The plugin pass \<^verbatim>\<open>state\<close>, as far as the factory reads it: \<^verbatim>\<open>state.file.opts.filename\<close>
  (possibly undefined), \<^verbatim>\<open>state.cwd\<close>, the options \<^verbatim>\<open>relativeSourceLocation\<close> and
  \<^verbatim>\<open>omitNativeOnlyData\<close> by their truthiness, and the counter \<^verbatim>\<open>state.workletNumber\<close>.
\<close>

record ReanimatedPluginPass =
  filename :: "js_string option"
  cwd :: js_string
  relativeSourceLocation :: bool
  omitNativeOnlyData :: bool
  workletNumber :: nat

text \<open>
  The local \<^verbatim>\<open>source\<close>: \<^verbatim>\<open>'unknownFile'\<close> unless the file name is truthy; otherwise its
  base name, prefixed with the path segment after the first \<^verbatim>\<open>node_modules\<close> segment where
  there is one (\<^verbatim>\<open>undefined\<close> is rendered as such when that segment is the last).
  \<^verbatim>\<open>basename\<close> is Node's, a parameter here.
\<close>

definition source_name :: "(js_string \<Rightarrow> js_string) \<Rightarrow> ReanimatedPluginPass \<Rightarrow> js_string" where
  "source_name basename state =
     (case filename state of
        None \<Rightarrow> lit ''unknownFile''
      | Some filepath \<Rightarrow>
          (if filepath = [] then lit ''unknownFile''
           else (let source = basename filepath;
                     splitFilepath = js_split 47 filepath
                 in (case indexOf splitFilepath (lit ''node_modules'') of
                       None \<Rightarrow> source
                     | Some nodeModulesIndex \<Rightarrow>
                         (let libraryName =
                                (if nodeModulesIndex + 1 < length splitFilepath
                                 then splitFilepath ! (nodeModulesIndex + 1)
                                 else lit ''undefined'')
                          in libraryName @ lit ''_'' @ source)))))"

text \<open>
  \<^verbatim>\<open>toIdentifier\<close> is the sanitizer of \<^verbatim>\<open>@babel/types\<close>, a parameter here. The result is
  the name together with the state after \<^verbatim>\<open>state.workletNumber++\<close>.
\<close>

definition makeWorkletName ::
  "(js_string \<Rightarrow> js_string) \<Rightarrow> (js_string \<Rightarrow> js_string) \<Rightarrow> fun_node \<Rightarrow> ReanimatedPluginPass
   \<Rightarrow> js_string \<times> ReanimatedPluginPass" where
  "makeWorkletName toIdentifier basename fun_nd state =
     (let source = source_name basename state;
          suffix = source @ decimal (workletNumber state);
          state' = state\<lparr>workletNumber := workletNumber state + 1\<rparr>
      in case fun_nd of
           ObjectMethod (IdentifierKey k) \<Rightarrow> (toIdentifier (k @ lit ''_'' @ suffix), state')
         | FunctionDeclaration (Some i) \<Rightarrow> (toIdentifier (i @ lit ''_'' @ suffix), state')
         | FunctionExpression (Some i) \<Rightarrow> (toIdentifier (i @ lit ''_'' @ suffix), state')
         | _ \<Rightarrow> (toIdentifier suffix, state'))"

text \<open>
  The worklets of one file are named one after the other, on the same pass state.
\<close>

fun name_worklets ::
  "(js_string \<Rightarrow> js_string) \<Rightarrow> (js_string \<Rightarrow> js_string) \<Rightarrow> fun_node list \<Rightarrow> ReanimatedPluginPass
   \<Rightarrow> js_string list \<times> ReanimatedPluginPass" where
  "name_worklets toIdentifier basename [] state = ([], state)"
| "name_worklets toIdentifier basename (f # fs) state =
     (case makeWorkletName toIdentifier basename f state of
        (n, state') \<Rightarrow>
          (case name_worklets toIdentifier basename fs state' of
             (ns, state'') \<Rightarrow> (n # ns, state'')))"

text \<open>
  For stating the properties: the name the function carries for this purpose (the key
  of an object method, the \<^verbatim>\<open>id\<close> of a declaration or function expression), and the
  string that \<^verbatim>\<open>makeWorkletName\<close> hands to \<^verbatim>\<open>toIdentifier\<close> at a given counter value.
\<close>

fun own_name :: "fun_node \<Rightarrow> js_string option" where
  "own_name (ObjectMethod (IdentifierKey k)) = Some k"
| "own_name (ObjectMethod OtherKey) = None"
| "own_name (FunctionDeclaration i) = i"
| "own_name (FunctionExpression i) = i"
| "own_name ArrowFunctionExpression = None"

definition unsanitized_name ::
  "(js_string \<Rightarrow> js_string) \<Rightarrow> fun_node \<Rightarrow> ReanimatedPluginPass \<Rightarrow> nat \<Rightarrow> js_string" where
  "unsanitized_name basename fun_nd state counter =
     (case own_name fun_nd of None \<Rightarrow> [] | Some i \<Rightarrow> i @ lit ''_'')
     @ source_name basename state @ decimal counter"

subsection \<open>The library functions behind the parameters\<close>

text \<open>
  For evaluating \<^verbatim>\<open>makeWorkletName\<close> on concrete files, the two library functions it
  calls. \<^verbatim>\<open>toIdentifier\<close> of \<^verbatim>\<open>@babel/types\<close> (version 7) is
  \<^verbatim>\<open>
  let name = "";
  for (const c of input) name += isIdentifierChar(c.codePointAt(0)) ? c : "-";
  name = name.replace(/^[-0-9]+/, "");
  name = name.replace(/[-\s]+(.)?/g, (match, c) => c ? c.toUpperCase() : "");
  if (!isValidIdentifier(name)) name = `_${name}`;
  return name || "_";
  \<close>
  Its Unicode tables (\<^verbatim>\<open>isIdentifierChar\<close>, \<^verbatim>\<open>isValidIdentifier\<close>) and \<^verbatim>\<open>toUpperCase\<close> are
  parameters of the model, which works on code units. After a run of \<^verbatim>\<open>[-\s]\<close> the next
  character, if any, is not a line terminator, so \<^verbatim>\<open>(.)?\<close> takes it.
\<close>

definition isDigit :: "16 word \<Rightarrow> bool" where
  "isDigit c \<longleftrightarrow> 48 \<le> c \<and> c \<le> 57"

definition isWhiteSpace :: "16 word \<Rightarrow> bool" where
  "isWhiteSpace c \<longleftrightarrow>
     c \<in> {9, 10, 11, 12, 13, 32, 160, 5760, 8232, 8233, 8239, 8287, 12288, 65279}
     \<or> (8192 \<le> c \<and> c \<le> 8202)"

definition isSeparator :: "16 word \<Rightarrow> bool" where
  "isSeparator c \<longleftrightarrow> c = 45 \<or> isWhiteSpace c"

function camelCase :: "(16 word \<Rightarrow> js_string) \<Rightarrow> js_string \<Rightarrow> js_string" where
  "camelCase toUpperCase [] = []"
| "camelCase toUpperCase (c # cs) =
     (if isSeparator c
      then (case dropWhile isSeparator cs of
              [] \<Rightarrow> []
            | d # ds \<Rightarrow> toUpperCase d @ camelCase toUpperCase ds)
      else c # camelCase toUpperCase cs)"
  by pat_completeness auto
termination
proof (relation "measure (\<lambda>(u, s). length s)")
  show "wf (measure (\<lambda>(u, s). length s))" by simp
next
  fix toUpperCase :: "16 word \<Rightarrow> js_string" and c cs d ds
  assume "dropWhile isSeparator cs = d # ds"
  then have "length (d # ds) \<le> length cs"
    by (metis length_dropWhile_le)
  then show "((toUpperCase, ds), (toUpperCase, c # cs)) \<in> measure (\<lambda>(u, s). length s)"
    by simp
next
  fix toUpperCase :: "16 word \<Rightarrow> js_string" and c cs
  show "((toUpperCase, cs), (toUpperCase, c # cs)) \<in> measure (\<lambda>(u, s). length s)"
    by simp
qed

definition babel_toIdentifier ::
  "(16 word \<Rightarrow> bool) \<Rightarrow> (js_string \<Rightarrow> bool) \<Rightarrow> (16 word \<Rightarrow> js_string) \<Rightarrow> js_string \<Rightarrow> js_string" where
  "babel_toIdentifier isIdentifierChar isValidIdentifier toUpperCase input =
     (let name1 = map (\<lambda>c. if isIdentifierChar c then c else 45) input;
          name2 = dropWhile (\<lambda>c. c = 45 \<or> isDigit c) name1;
          name3 = camelCase toUpperCase name2;
          name4 = (if \<not> isValidIdentifier name3 then lit ''_'' @ name3 else name3)
      in if name4 = [] then lit ''_'' else name4)"

text \<open>
  \<^verbatim>\<open>path.posix.basename\<close> without an extension argument: trailing slashes are dropped,
  then the part after the last slash is returned.
\<close>

definition posix_basename :: "js_string \<Rightarrow> js_string" where
  "posix_basename path =
     rev (takeWhile (\<lambda>c. c \<noteq> 47) (dropWhile (\<lambda>c. c = 47) (rev path)))"

text \<open>
  The tables restricted to ASCII: letters, digits, \<^verbatim>\<open>$\<close> and \<^verbatim>\<open>_\<close> are identifier
  characters; a name is valid when it is not empty, does not start with a digit and
  consists of identifier characters (reserved words are not looked at: none occurs
  below).
\<close>

definition ascii_isIdentifierChar :: "16 word \<Rightarrow> bool" where
  "ascii_isIdentifierChar c \<longleftrightarrow>
     (97 \<le> c \<and> c \<le> 122) \<or> (65 \<le> c \<and> c \<le> 90) \<or> isDigit c \<or> c = 36 \<or> c = 95"

definition ascii_toUpperCase :: "16 word \<Rightarrow> js_string" where
  "ascii_toUpperCase c = (if 97 \<le> c \<and> c \<le> 122 then [c - 32] else [c])"

definition ascii_isValidIdentifier :: "js_string \<Rightarrow> bool" where
  "ascii_isValidIdentifier nm \<longleftrightarrow>
     nm \<noteq> [] \<and> \<not> isDigit (hd nm) \<and> list_all ascii_isIdentifierChar nm"

abbreviation ascii_toIdentifier :: "js_string \<Rightarrow> js_string" where
  "ascii_toIdentifier \<equiv>
     babel_toIdentifier ascii_isIdentifierChar ascii_isValidIdentifier ascii_toUpperCase"

text \<open>Two pass states: a file whose base name is a number, and a file of a library.\<close>

definition digits_file_state :: ReanimatedPluginPass where
  "digits_file_state = \<lparr>filename = Some (lit ''/app/2024''), cwd = lit ''/app'',
     relativeSourceLocation = False, omitNativeOnlyData = False, workletNumber = 1\<rparr>"

definition library_file_state :: ReanimatedPluginPass where
  "library_file_state = \<lparr>filename = Some (lit ''/app/node_modules/lib/App.js''),
     cwd = lit ''/app'', relativeSourceLocation = False, omitNativeOnlyData = False,
     workletNumber = 9\<rparr>"

subsection \<open>Syntax nodes built by the factory\<close>

text \<open>
  The nodes that \<^verbatim>\<open>makeWorkletFactory\<close> builds, each constructor named after the builder
  of \<^verbatim>\<open>@babel/types\<close> that the source calls, with that builder's arguments:
  \<^verbatim>\<open>memberExpression(object, property, computed)\<close>, \<^verbatim>\<open>objectProperty(key, value, computed,
  shorthand)\<close>, \<^verbatim>\<open>functionExpression(id, params, body, generator, async)\<close> and so on. \<open>Id\<close>
  embeds an \<^verbatim>\<open>Identifier\<close> node; \<open>identifier_expr\<close> is the builder \<^verbatim>\<open>identifier(name)\<close>, which
  gives a node without location.
\<close>

datatype expr =
    Id Identifier
  | stringLiteral js_string
  | numericLiteral int
  | memberExpression expr expr bool
  | objectExpression "objectProperty list"
  | arrayExpression "expr list"
  | newExpression expr "expr list"
  | assignmentExpression js_string expr expr
  | functionExpression "Identifier option" "expr list" function_body bool bool
  | arrowFunctionExpression "expr list" function_body bool
and objectProperty = objectProperty expr expr bool bool
and function_body = blockStatement "statement list" | expressionBody expr
and statement =
    variableDeclaration js_string "variableDeclarator list"
  | expressionStatement expr
  | returnStatement expr
and variableDeclarator = variableDeclarator expr expr

definition identifier_expr :: "js_string \<Rightarrow> expr" where
  "identifier_expr nm = Id (Identifier nm None)"

text \<open>
  The argument \<^verbatim>\<open>fun\<close>, as far as the factory reads it: the node (its type and name),
  \<^verbatim>\<open>params\<close>, \<^verbatim>\<open>body\<close>, \<^verbatim>\<open>generator\<close> and \<^verbatim>\<open>async\<close>, which go into the clone; the
  \<^verbatim>\<open>Identifier\<close> paths that \<^verbatim>\<open>fun.traverse\<close> visits; and whether the path has an ancestor
  directly under the program (\<^verbatim>\<open>pathForStringDefinitions\<close> is not null).
\<close>

record WorkletizableFunction =
  fn_node :: fun_node
  fn_params :: "expr list"
  fn_body :: function_body
  fn_generator :: bool
  fn_async :: bool
  fn_identifiers :: "IdentifierPath list"
  fn_under_program :: bool

text \<open>
  What the factory takes from outside \<^verbatim>\<open>workletFactory.ts\<close>: \<^verbatim>\<open>isRelease()\<close> and
  \<^verbatim>\<open>shouldMockVersion()\<close> (both read the process environment), the version of
  \<^verbatim>\<open>package.json\<close>, the set \<^verbatim>\<open>globals\<close>, the library functions \<^verbatim>\<open>toIdentifier\<close>, \<^verbatim>\<open>basename\<close>,
  \<^verbatim>\<open>relative\<close>, \<^verbatim>\<open>String.prototype.replace\<close> and \<^verbatim>\<open>generateUidIdentifier\<close>, the
  \<^verbatim>\<open>Identifier\<close> paths of the tree that \<^verbatim>\<open>generate\<close> and \<^verbatim>\<open>transformSync\<close> produce from the
  function (the outer \<open>None\<close>: \<^verbatim>\<open>transformed\<close> is undefined; the inner: \<^verbatim>\<open>transformed.ast\<close>
  is), and \<^verbatim>\<open>buildWorkletString\<close> of \<^verbatim>\<open>./workletStringCode\<close>, as a function of the captured
  variables and the name, returning the code and the source map.
\<close>

record environment =
  env_isRelease :: bool
  env_shouldMockVersion :: bool
  env_REAL_VERSION :: js_string
  env_globals :: "js_string set"
  env_toIdentifier :: "js_string \<Rightarrow> js_string"
  env_basename :: "js_string \<Rightarrow> js_string"
  env_relative :: "js_string \<Rightarrow> js_string \<Rightarrow> js_string"
  env_replace :: "js_string \<Rightarrow> js_string \<Rightarrow> js_string \<Rightarrow> js_string"
  env_transformed :: "IdentifierPath list option option"
  env_buildWorkletString :: "Identifier list \<Rightarrow> js_string \<Rightarrow> js_string \<times> js_string option"
  env_generateUidIdentifier :: "js_string \<Rightarrow> Identifier"

text \<open>
  A failed \<^verbatim>\<open>assert\<close> throws. A call that returns yields the new function expression,
  the statements inserted before \<^verbatim>\<open>pathForStringDefinitions\<close>, and the pass state.
\<close>

datatype error = AssertionError string

record factory_result =
  newFun :: expr
  insertedBefore :: "statement list"
  state_after :: ReanimatedPluginPass

definition MOCK_VERSION :: js_string where
  "MOCK_VERSION = lit ''x.y.z''"

text \<open>
  \<^verbatim>\<open>funExpression\<close>: a fresh function expression around the clone's parameters and
  body when the body is a block, the clone itself otherwise, followed by the two
  assertions on it.
\<close>

definition funExpression :: "WorkletizableFunction \<Rightarrow> error + expr" where
  "funExpression fn =
     (case fn_body fn of
        blockStatement b \<Rightarrow>
          Inr (functionExpression None (fn_params fn) (blockStatement b)
                 (fn_generator fn) (fn_async fn))
      | expressionBody e \<Rightarrow>
          (case fn_node fn of
             FunctionDeclaration i \<Rightarrow>
               Inl (AssertionError ''[Reanimated] `funExpression` is a `FunctionDeclaration`.'')
           | ObjectMethod k \<Rightarrow>
               Inl (AssertionError ''[Reanimated] `funExpression` is an `ObjectMethod`.'')
           | FunctionExpression i \<Rightarrow>
               Inr (functionExpression (map_option (\<lambda>n. Identifier n None) i) (fn_params fn)
                      (expressionBody e) (fn_generator fn) (fn_async fn))
           | ArrowFunctionExpression \<Rightarrow>
               Inr (arrowFunctionExpression (fn_params fn) (expressionBody e) (fn_async fn))))"

text \<open>\<^verbatim>\<open>const variables = makeArrayFromCapturedBindings(transformed.ast, fun)\<close>\<close>

definition captured_variables ::
  "environment \<Rightarrow> WorkletizableFunction \<Rightarrow> IdentifierPath list \<Rightarrow> Identifier list" where
  "captured_variables env fn ast =
     makeArrayFromCapturedBindings (env_globals env) ast (fn_node fn) (fn_identifiers fn)"

text \<open>
  \<^verbatim>\<open>let lineOffset = 1; if (variables.length > 0) { lineOffset -= variables.length + 2; }\<close>
\<close>

definition lineOffset :: "Identifier list \<Rightarrow> int" where
  "lineOffset variables =
     (if length variables > 0 then 1 - (int (length variables) + 2) else 1)"

text \<open>
  The object expression of the init data: \<^verbatim>\<open>code\<close>; then \<^verbatim>\<open>location\<close> unless in release
  (made relative, together with the source map, under \<^verbatim>\<open>relativeSourceLocation\<close>); then
  \<^verbatim>\<open>sourceMap\<close> when the source map string is truthy; then \<^verbatim>\<open>version\<close> unless in release.
\<close>

definition initDataObjectExpression ::
  "environment \<Rightarrow> ReanimatedPluginPass \<Rightarrow> js_string \<Rightarrow> js_string \<Rightarrow> js_string option \<Rightarrow> expr" where
  "initDataObjectExpression env state file funString sourceMapString0 =
     (let properties0 = [objectProperty (identifier_expr (lit ''code'')) (stringLiteral funString)
                           False False];
          shouldInjectLocation = \<not> env_isRelease env;
          location = (if shouldInjectLocation \<and> relativeSourceLocation state
                      then env_relative env (cwd state) file else file);
          sourceMapString =
            (if shouldInjectLocation \<and> relativeSourceLocation state
             then map_option (\<lambda>s. env_replace env s file location) sourceMapString0
             else sourceMapString0);
          properties1 =
            (if shouldInjectLocation
             then properties0 @ [objectProperty (identifier_expr (lit ''location''))
                                   (stringLiteral location) False False]
             else properties0);
          properties2 =
            (case sourceMapString of
               None \<Rightarrow> properties1
             | Some s \<Rightarrow>
                 if s = [] then properties1
                 else properties1 @ [objectProperty (identifier_expr (lit ''sourceMap''))
                                       (stringLiteral s) False False]);
          shouldInjectVersion = \<not> env_isRelease env;
          properties3 =
            (if shouldInjectVersion
             then properties2 @ [objectProperty (identifier_expr (lit ''version''))
                    (stringLiteral (if env_shouldMockVersion env then MOCK_VERSION
                                    else env_REAL_VERSION env)) False False]
             else properties2)
      in objectExpression properties3)"

text \<open>
  The array \<^verbatim>\<open>statements\<close>: its three initial elements, the \<^verbatim>\<open>push\<close> of the
  \<^verbatim>\<open>__initData\<close> assignment, outside release the \<^verbatim>\<open>unshift\<close> of the declaration of \<^verbatim>\<open>_e\<close>
  and the \<^verbatim>\<open>push\<close> of the \<^verbatim>\<open>__stackDetails\<close> assignment, and the \<^verbatim>\<open>push\<close> of the return.
\<close>

definition wrapper_statements ::
  "bool \<Rightarrow> bool \<Rightarrow> expr \<Rightarrow> expr \<Rightarrow> Identifier list \<Rightarrow> int \<Rightarrow> Identifier \<Rightarrow> int \<Rightarrow> statement list" where
  "wrapper_statements release shouldIncludeInitData functionIdentifier funExpr variables
       workletHash initDataId line_offset =
     (let statements0 =
            [variableDeclaration (lit ''const'') [variableDeclarator functionIdentifier funExpr],
             expressionStatement
               (assignmentExpression (lit ''='')
                  (memberExpression functionIdentifier (identifier_expr (lit ''__closure'')) False)
                  (objectExpression
                     (map (\<lambda>variable. objectProperty (identifier_expr (name variable)) (Id variable)
                                         False True) variables))),
             expressionStatement
               (assignmentExpression (lit ''='')
                  (memberExpression functionIdentifier (identifier_expr (lit ''__workletHash'')) False)
                  (numericLiteral workletHash))];
          statements1 =
            (if shouldIncludeInitData
             then statements0 @
                  [expressionStatement
                     (assignmentExpression (lit ''='')
                        (memberExpression functionIdentifier (identifier_expr (lit ''__initData''))
                           False)
                        (Id initDataId))]
             else statements0);
          statements2 =
            (if \<not> release
             then (variableDeclaration (lit ''const'')
                     [variableDeclarator (identifier_expr (lit ''_e''))
                        (arrayExpression
                           [newExpression
                              (memberExpression (identifier_expr (lit ''global''))
                                 (identifier_expr (lit ''Error'')) False) [],
                            numericLiteral line_offset,
                            numericLiteral (- 27)])]
                   # statements1) @
                  [expressionStatement
                     (assignmentExpression (lit ''='')
                        (memberExpression functionIdentifier
                           (identifier_expr (lit ''__stackDetails'')) False)
                        (identifier_expr (lit ''_e'')))]
             else statements1)
      in statements2 @ [returnStatement functionIdentifier])"

text \<open>
  The factory from its first assertion on (\<^verbatim>\<open>removeWorkletDirective(fun)\<close>, its first
  statement, is modelled above). Assertions are checked in the order of the source.
\<close>

definition makeWorkletFactory ::
  "environment \<Rightarrow> WorkletizableFunction \<Rightarrow> ReanimatedPluginPass \<Rightarrow> error + factory_result" where
  "makeWorkletFactory env fn state =
     (case filename state of
        None \<Rightarrow> Inl (AssertionError ''[Reanimated] `state.file.opts.filename` is undefined.'')
      | Some file \<Rightarrow>
     (if file = [] then
        Inl (AssertionError ''[Reanimated] `state.file.opts.filename` is undefined.'')
      else
     (case env_transformed env of
        None \<Rightarrow> Inl (AssertionError ''[Reanimated] `transformed` is undefined.'')
      | Some None \<Rightarrow> Inl (AssertionError ''[Reanimated] `transformed.ast` is undefined.'')
      | Some (Some ast) \<Rightarrow>
     (let variables = captured_variables env fn ast;
          named = makeWorkletName (env_toIdentifier env) (env_basename env) (fn_node fn) state;
          functionName = fst named;
          functionIdentifier = identifier_expr functionName;
          built = env_buildWorkletString env variables functionName;
          funString = fst built;
          sourceMapString = snd built
      in
     (if funString = [] then Inl (AssertionError ''[Reanimated] `funString` is undefined.'')
      else
     (let workletHash = hash funString in
     (if \<not> fn_under_program fn then
        Inl (AssertionError ''[Reanimated] `pathForStringDefinitions` is null.'')
      else
     (let initDataId = env_generateUidIdentifier env
            (lit ''worklet_'' @ decimal (nat workletHash) @ lit ''_init_data'');
          initData = initDataObjectExpression env state file funString sourceMapString;
          shouldIncludeInitData = \<not> omitNativeOnlyData state;
          inserted =
            (if shouldIncludeInitData
             then [variableDeclaration (lit ''const'')
                     [variableDeclarator (Id initDataId) initData]]
             else [])
      in
     (case funExpression fn of
        Inl e \<Rightarrow> Inl e
      | Inr funExpr \<Rightarrow>
          Inr \<lparr>newFun = functionExpression None []
                   (blockStatement
                      (wrapper_statements (env_isRelease env) shouldIncludeInitData
                         functionIdentifier funExpr variables workletHash initDataId
                         (lineOffset variables)))
                   False False,
               insertedBefore = inserted,
               state_after = snd named\<rparr>)))))))))"

text \<open>
  For stating the properties: the values of the locals \<^verbatim>\<open>functionName\<close>, \<^verbatim>\<open>funString\<close>,
  \<^verbatim>\<open>sourceMapString\<close> and \<^verbatim>\<open>initDataId\<close>; the statements of a function expression with a
  block body; the property that a statement \<^verbatim>\<open>f.property = value\<close> attaches; the names of
  the properties of an object expression.
\<close>

definition factory_functionName ::
  "environment \<Rightarrow> WorkletizableFunction \<Rightarrow> ReanimatedPluginPass \<Rightarrow> js_string" where
  "factory_functionName env fn state =
     fst (makeWorkletName (env_toIdentifier env) (env_basename env) (fn_node fn) state)"

definition factory_funString ::
  "environment \<Rightarrow> WorkletizableFunction \<Rightarrow> ReanimatedPluginPass \<Rightarrow> IdentifierPath list \<Rightarrow> js_string" where
  "factory_funString env fn state ast =
     fst (env_buildWorkletString env (captured_variables env fn ast)
            (factory_functionName env fn state))"

definition factory_sourceMapString ::
  "environment \<Rightarrow> WorkletizableFunction \<Rightarrow> ReanimatedPluginPass \<Rightarrow> IdentifierPath list
   \<Rightarrow> js_string option" where
  "factory_sourceMapString env fn state ast =
     snd (env_buildWorkletString env (captured_variables env fn ast)
            (factory_functionName env fn state))"

definition factory_initDataId ::
  "environment \<Rightarrow> WorkletizableFunction \<Rightarrow> ReanimatedPluginPass \<Rightarrow> IdentifierPath list \<Rightarrow> Identifier" where
  "factory_initDataId env fn state ast =
     env_generateUidIdentifier env
       (lit ''worklet_'' @ decimal (nat (hash (factory_funString env fn state ast)))
        @ lit ''_init_data'')"

fun wrapper_body :: "expr \<Rightarrow> statement list" where
  "wrapper_body (functionExpression i ps (blockStatement statements) g a) = statements"
| "wrapper_body e = []"

fun attached_property :: "statement \<Rightarrow> js_string option" where
  "attached_property
     (expressionStatement (assignmentExpression operator
        (memberExpression object (Id (Identifier property l)) c) right)) = Some property"
| "attached_property s = None"

definition attached_properties :: "expr \<Rightarrow> js_string list" where
  "attached_properties e = List.map_filter attached_property (wrapper_body e)"

fun property_name :: "objectProperty \<Rightarrow> js_string option" where
  "property_name (objectProperty (Id (Identifier k l)) v c s) = Some k"
| "property_name p = None"

definition property_names :: "objectProperty list \<Rightarrow> js_string list" where
  "property_names properties = List.map_filter property_name properties"

text \<open>
  An example: an arrow function with a block body that refers to the free variable
  \<^verbatim>\<open>x\<close>, in a development or release environment.
\<close>

definition example_environment :: "bool \<Rightarrow> environment" where
  "example_environment release =
     \<lparr>env_isRelease = release, env_shouldMockVersion = True,
      env_REAL_VERSION = lit ''3.16.0'', env_globals = {lit ''console''},
      env_toIdentifier = ascii_toIdentifier, env_basename = posix_basename,
      env_relative = (\<lambda>from to. drop (length from + 1) to),
      env_replace = (\<lambda>s pattern replacement. s),
      env_transformed = Some (Some [ref_x_first, ref_x_second]),
      env_buildWorkletString = (\<lambda>variables nm. (lit ''function f(){return x;}'', None)),
      env_generateUidIdentifier = (\<lambda>nm. Identifier (lit ''_'' @ nm) None)\<rparr>"

definition example_worklet :: WorkletizableFunction where
  "example_worklet =
     \<lparr>fn_node = ArrowFunctionExpression, fn_params = [],
      fn_body = blockStatement [returnStatement (Id (node ref_x_first))],
      fn_generator = False, fn_async = False, fn_identifiers = [ref_x_first],
      fn_under_program = True\<rparr>"

definition omitting_state :: ReanimatedPluginPass where
  "omitting_state = library_file_state\<lparr>omitNativeOnlyData := True\<rparr>"

section \<open>Theorems\<close>

subsection \<open>The identity hash\<close>

lemma ToInt32_sint: "ToInt32 x = sint (word_of_int x :: 32 word)"
proof -
  define m where "m = x mod 4294967296"
  have m: "0 \<le> m" "m < 4294967296" by (simp_all add: m_def)
  have e: "(x + 2147483648) mod 4294967296 = (m + 2147483648) mod 4294967296"
    unfolding m_def by (rule mod_add_left_eq [symmetric])
  have c: "(m + 2147483648) mod 4294967296 =
           (if m \<ge> 2147483648 then m - 2147483648 else m + 2147483648)"
  proof (cases "m \<ge> 2147483648")
    case True
    have "(m + 2147483648) mod 4294967296 = (m - 2147483648 + 4294967296) mod 4294967296"
      by (rule arg_cong [where f = "\<lambda>a. a mod 4294967296"]) arith
    also have "\<dots> = (m - 2147483648) mod 4294967296"
      by (rule mod_add_self2)
    also have "\<dots> = m - 2147483648"
      by (rule mod_pos_pos_trivial) (use True m in arith)+
    finally show ?thesis using True by simp
  next
    case False
    have "(m + 2147483648) mod 4294967296 = m + 2147483648"
      by (rule mod_pos_pos_trivial) (use False m in arith)+
    then show ?thesis using False by simp
  qed
  have "sint (word_of_int x :: 32 word) = (x + 2147483648) mod 4294967296 - 2147483648"
    by (simp add: int_word_sint)
  also have "\<dots> = (if m \<ge> 2147483648 then m - 4294967296 else m)"
    unfolding e c by simp
  also have "\<dots> = ToInt32 x"
    by (simp add: ToInt32_def Let_def m_def)
  finally show ?thesis by simp
qed

lemma ToUint32_sint: "ToUint32 (sint (w :: 32 word)) = uint w"
  by (simp add: ToUint32_def uint_sint take_bit_eq_mod)

text \<open>One update of an accumulator, read through the 32-bit word it denotes.\<close>

lemma js_xor_word:
  "js_xor (sint (w :: 32 word) * 33) (uint (c :: 16 word)) = sint (spec_step w c)"
proof -
  have a: "(word_of_int (sint w * 33) :: 32 word) = w * 33"
    by simp
  have b: "(word_of_int (uint c) :: 32 word) = ucast c"
    by simp
  show ?thesis
    unfolding js_xor_def ToInt32_sint a b spec_step_def
    by (simp add: signed_xor_eq)
qed

text \<open>
  Every accumulator after an update is an int32, so the next product with 33 is an
  integer below \<open>2 ^ 37\<close> in magnitude: the doubles of the source hold it exactly.
\<close>

lemma js_xor_int32: "- (2 ^ 31) \<le> js_xor a b \<and> js_xor a b < 2 ^ 31"
proof -
  have "js_xor a b = sint ((word_of_int a :: 32 word) XOR word_of_int b)"
    by (simp add: js_xor_def ToInt32_sint signed_xor_eq)
  moreover have "- (2 ^ 31) \<le> sint ((word_of_int a :: 32 word) XOR word_of_int b)"
    using sint_ge [of "(word_of_int a :: 32 word) XOR word_of_int b"] by simp
  moreover have "sint ((word_of_int a :: 32 word) XOR word_of_int b) < 2 ^ 31"
    using sint_lt [of "(word_of_int a :: 32 word) XOR word_of_int b"] by simp
  ultimately show ?thesis by simp
qed

lemma hash_loop_word:
  "i \<le> length str \<Longrightarrow>
   hash_loop str i (sint w1) (sint w2) =
     (sint (foldl spec_step w1 (rev (take i str))),
      sint (foldl spec_step w2 (rev (take i str))))"
proof (induction i arbitrary: w1 w2)
  case 0
  then show ?case by simp
next
  case (Suc i)
  then have lt: "i < length str" by simp
  have tk: "rev (take (Suc i) str) = str ! i # rev (take i str)"
    using lt by (simp add: take_Suc_conv_app_nth)
  show ?case
    using Suc.IH [of "spec_step w1 (str ! i)" "spec_step w2 (str ! i)"] lt
    by (simp add: tk charCodeAt_def js_xor_word Let_def)
qed

lemma hash_loop_seeds:
  "hash_loop str (length str) 5381 52711 =
     (sint (foldl spec_step 5381 (rev str)), sint (foldl spec_step 52711 (rev str)))"
proof -
  have s: "sint (5381 :: 32 word) = 5381" "sint (52711 :: 32 word) = 52711"
    by simp_all
  show ?thesis
    using hash_loop_word [of "length str" str 5381 52711] by (simp add: s)
qed

lemma hash_range: "0 \<le> hash str \<and> hash str \<le> (2 ^ 32 - 1) * 4096 + (2 ^ 32 - 1)"
proof -
  obtain h1 h2 where h: "hash_loop str (length str) 5381 52711 = (h1, h2)"
    by (cases "hash_loop str (length str) 5381 52711")
  have "0 \<le> ToUint32 h1" "ToUint32 h1 \<le> 2 ^ 32 - 1"
       "0 \<le> ToUint32 h2" "ToUint32 h2 \<le> 2 ^ 32 - 1"
    by (simp_all add: ToUint32_def)
  then show ?thesis
    by (simp add: hash_def h)
qed

text \<open>
  Claim C2. For every input string, \<^verbatim>\<open>hash\<close> computes exactly the algorithm of the
  specification: accumulators seeded 5381 and 52711, a scan from the last character
  to the first, each step replacing each accumulator by the 32-bit truncation of
  \<open>(accumulator * 33) xor charCode\<close>, both accumulators read as unsigned 32-bit values,
  and \<open>hash1 * 4096 + hash2\<close> as the result.
\<close>

theorem hash_computes_spec_hash: "hash str = spec_hash str"
  by (simp add: hash_def spec_hash_def hash_loop_seeds ToUint32_sint Let_def)

text \<open>
  Claim C10, as stated, bounds the result strictly below \<open>2 ^ 44\<close>. The bound
  \<open>(2 ^ 32 - 1) * 4096 + (2 ^ 32 - 1)\<close> is \<open>2 ^ 44 + 2 ^ 32 - 4097\<close>, which is not below
  \<open>2 ^ 44\<close>, and the eight-character string \<^verbatim>\<open>inonggqm\<close> hashes to 17592805459453,
  above \<open>2 ^ 44 = 17592186044416\<close>.
\<close>

theorem hash_reaches_2_pow_44:
  "\<not> hash [105, 110, 111, 110, 103, 103, 113, 109] < 2 ^ 44"
  by code_simp

text \<open>
  Claim C10, amended. For every input string the result of \<^verbatim>\<open>hash\<close> is a non-negative
  integer bounded above by \<open>(2 ^ 32 - 1) * 4096 + (2 ^ 32 - 1)\<close>, hence strictly less than
  \<open>2 ^ 45\<close> (and so exactly representable and never negative); the empty string hashes
  to \<open>5381 * 4096 + 52711\<close>.
\<close>

theorem hash_nonneg_bounded:
  "0 \<le> hash str \<and> hash str \<le> (2 ^ 32 - 1) * 4096 + (2 ^ 32 - 1) \<and> hash str < 2 ^ 45
   \<and> hash [] = 5381 * 4096 + 52711"
proof -
  have e: "hash [] = 5381 * 4096 + 52711"
    by (simp add: hash_def ToUint32_def)
  have "hash str \<le> (2 ^ 32 - 1) * 4096 + (2 ^ 32 - 1)"
    using hash_range [of str] by blast
  then have "hash str < 2 ^ 45" by simp
  then show ?thesis
    using hash_range [of str] e by blast
qed

subsection \<open>The closure analysis\<close>

text \<open>The scope walk finds a name exactly when some scope of the chain binds it.\<close>

lemma scope_walk_iff: "scope_walk sc nm \<longleftrightarrow> (\<exists>bindings \<in> set sc. nm \<in> set bindings)"
  by (induction sc) auto

text \<open>The first visitor, by cases on \<open>registers\<close>.\<close>

lemma capture_visitor_registers:
  "capture_visitor globals fun_nd m path =
     (if registers globals fun_nd path
      then m\<lparr>closure := AList.update (name (node path)) (node path) (closure m),
             isLocationAssignedMap :=
               AList.update (name (node path)) False (isLocationAssignedMap m)\<rparr>
      else m)"
  by (cases "parent path"; cases "fun_id fun_nd")
     (auto simp: capture_visitor_def registers_def Let_def)

lemma find_append_case:
  "find P (xs @ ys) = (case find P xs of None \<Rightarrow> find P ys | Some x \<Rightarrow> Some x)"
  by (induction xs) auto

lemma first_pass_keys:
  "map fst (closure (foldl (capture_visitor globals fun_nd) m ast)) =
     map fst (closure m) @
     filter (\<lambda>n. n \<notin> set (map fst (closure m)))
       (discovery_order (map (\<lambda>p. name (node p)) (filter (registers globals fun_nd) ast)))"
proof (induction ast arbitrary: m)
  case Nil
  then show ?case by simp
next
  case (Cons p ast)
  show ?case
  proof (cases "registers globals fun_nd p")
    case False
    then show ?thesis
      using Cons.IH [of m] by (simp add: capture_visitor_registers)
  next
    case True
    define n where "n = name (node p)"
    define m' where "m' = m\<lparr>closure := AList.update n (node p) (closure m),
                  isLocationAssignedMap := AList.update n False (isLocationAssignedMap m)\<rparr>"
    define K where "K = set (map fst (closure m))"
    define D where "D = discovery_order
                          (map (\<lambda>p. name (node p)) (filter (registers globals fun_nd) ast))"
    have step: "capture_visitor globals fun_nd m p = m'"
      using True by (simp add: capture_visitor_registers m'_def n_def)
    have keys: "map fst (closure m') =
                (if n \<in> K then map fst (closure m) else map fst (closure m) @ [n])"
      by (simp add: update_keys m'_def K_def)
    have K': "set (map fst (closure m')) = insert n K"
      by (simp add: keys K_def insert_absorb)
    have IH: "map fst (closure (foldl (capture_visitor globals fun_nd) m' ast)) =
              map fst (closure m') @ filter (\<lambda>x. x \<notin> insert n K) D"
      using Cons.IH [of m'] by (simp only: K' D_def)
    have flt: "filter (\<lambda>x. x \<notin> insert n K) D = filter (\<lambda>x. x \<notin> K) (filter (\<lambda>y. y \<noteq> n) D)"
      by (induction D) auto
    have goal: "map fst (closure m') @ filter (\<lambda>x. x \<notin> insert n K) D =
                map fst (closure m) @ filter (\<lambda>x. x \<notin> K) (n # filter (\<lambda>y. y \<noteq> n) D)"
      by (simp add: keys flt)
    have "discovery_order (map (\<lambda>p. name (node p)) (filter (registers globals fun_nd) (p # ast)))
          = n # filter (\<lambda>y. y \<noteq> n) D"
      using True by (simp add: n_def D_def)
    then show ?thesis
      using IH goal by (simp add: step K_def)
  qed
qed

lemma first_pass_lookup:
  "map_of (closure (foldl (capture_visitor globals fun_nd) m ast)) n =
     (case find (\<lambda>p. registers globals fun_nd p \<and> name (node p) = n) (rev ast) of
        None \<Rightarrow> map_of (closure m) n
      | Some p \<Rightarrow> Some (node p))"
proof (induction ast arbitrary: m)
  case Nil
  then show ?case by simp
next
  case (Cons p ast)
  show ?case
    using Cons.IH [of "capture_visitor globals fun_nd m p"]
    by (auto simp: capture_visitor_registers find_append_case update_conv'
             split: option.splits)
qed

lemma first_pass_distinct:
  "distinct (map fst (closure m)) \<Longrightarrow>
   distinct (map fst (closure (foldl (capture_visitor globals fun_nd) m ast)))"
  by (induction ast arbitrary: m) (auto simp: capture_visitor_registers distinct_update)

lemma update_present_map:
  "distinct (map fst al) \<Longrightarrow> k \<in> fst ` set al \<Longrightarrow>
   AList.update k v al = map (\<lambda>(n, x). (n, if n = k then v else x)) al"
proof (induction al)
  case Nil
  then show ?case by simp
next
  case (Cons a al)
  obtain n x where a: "a = (n, x)" by (cases a)
  show ?case
  proof (cases "n = k")
    case True
    then have "k \<notin> fst ` set al" using Cons.prems(1) a by auto
    then have "map (\<lambda>(n, x). (n, if n = k then v else x)) al = al"
      by (induction al) auto
    then show ?thesis using True a by simp
  next
    case False
    then show ?thesis using Cons a by auto
  qed
qed

lemma location_visitor_cases:
  "location_visitor m p =
     (if matching (name (node p)) p \<and> name (node p) \<in> fst ` set (closure m)
         \<and> \<not> assigned m (name (node p))
      then m\<lparr>closure := AList.update (name (node p))
                 (Identifier (name (the (map_of (closure m) (name (node p))))) (loc (node p)))
                 (closure m),
             isLocationAssignedMap :=
               AList.update (name (node p)) True (isLocationAssignedMap m)\<rparr>
      else m)"
proof (cases "map_of (closure m) (name (node p))")
  case None
  then have "name (node p) \<notin> fst ` set (closure m)"
    by (simp add: map_of_eq_None_iff)
  then show ?thesis
    using None by (simp add: location_visitor_def)
next
  case (Some nd)
  then have "name (node p) \<in> fst ` set (closure m)"
    using map_of_eq_None_iff [of "closure m" "name (node p)"] by simp
  then show ?thesis
    using Some by (simp add: location_visitor_def matching_def assigned_def)
qed

lemma location_visitor_keys:
  "map fst (closure (location_visitor m p)) = map fst (closure m)"
  by (auto simp: location_visitor_cases update_keys)

lemma second_pass_keys:
  "map fst (closure (foldl location_visitor m ps)) = map fst (closure m)"
  by (induction ps arbitrary: m) (simp_all add: location_visitor_keys)

lemma second_pass_closure:
  "distinct (map fst (closure m)) \<Longrightarrow>
   closure (foldl location_visitor m ps) = map (relocate m ps) (closure m)"
proof (induction ps arbitrary: m)
  case Nil
  have "map (relocate m []) (closure m) = closure m"
    by (induction "closure m") (auto simp: relocate_def intro!: map_idI)
  then show ?case by simp
next
  case (Cons p ps)
  define k where "k = name (node p)"
  define m' where "m' = location_visitor m p"
  have dist': "distinct (map fst (closure m'))"
    using Cons.prems by (simp add: m'_def location_visitor_keys)
  have IH: "closure (foldl location_visitor m' ps) = map (relocate m' ps) (closure m')"
    using Cons.IH [OF dist'] .
  show ?case
  proof (cases "matching k p \<and> k \<in> fst ` set (closure m) \<and> \<not> assigned m k")
    case False
    then have "\<not> (matching (name (node p)) p \<and> name (node p) \<in> fst ` set (closure m)
                 \<and> \<not> assigned m (name (node p)))"
      by (simp add: k_def)
    then have same: "m' = m"
      unfolding m'_def location_visitor_cases by (rule if_not_P)
    have "relocate m ps e = relocate m (p # ps) e" if "e \<in> set (closure m)" for e
    proof -
      obtain n nd where e: "e = (n, nd)" by (cases e)
      have "n \<in> fst ` set (closure m)" using that e by force
      then have "\<not> assigned m n \<Longrightarrow> \<not> matching n p"
        using False by (auto simp: matching_def k_def)
      then show ?thesis by (auto simp: relocate_def e)
    qed
    then have "map (relocate m ps) (closure m) = map (relocate m (p # ps)) (closure m)"
      by (intro map_cong) simp_all
    then show ?thesis using IH same by (simp add: m'_def)
  next
    case True
    define v where "v = Identifier (name (the (map_of (closure m) k))) (loc (node p))"
    have m': "m' = m\<lparr>closure := AList.update k v (closure m),
                     isLocationAssignedMap := AList.update k True (isLocationAssignedMap m)\<rparr>"
      using True by (simp add: m'_def location_visitor_cases k_def v_def)
    have cl': "closure m' = map (\<lambda>(n, x). (n, if n = k then v else x)) (closure m)"
      using True Cons.prems by (simp add: m' update_present_map)
    have as': "assigned m' n \<longleftrightarrow> n = k \<or> assigned m n" for n
      by (simp add: assigned_def m' update_conv')
    have "relocate m' ps (case e of (n, x) \<Rightarrow> (n, if n = k then v else x)) = relocate m (p # ps) e"
      if "e \<in> set (closure m)" for e
    proof -
      obtain n nd where e: "e = (n, nd)" by (cases e)
      show ?thesis
      proof (cases "n = k")
        case nk: True
        have "map_of (closure m) k = Some nd"
          using that e nk Cons.prems by simp
        then have "v = Identifier (name nd) (loc (node p))" by (simp add: v_def)
        then show ?thesis
          using True nk by (simp add: relocate_def e as')
      next
        case nk: False
        then have "\<not> matching n p" by (auto simp: matching_def k_def)
        then show ?thesis
          using nk by (simp add: relocate_def e as')
      qed
    qed
    then have "map (relocate m' ps) (closure m') = map (relocate m (p # ps)) (closure m)"
      unfolding cl' map_map by (intro map_cong) simp_all
    then show ?thesis using IH by (simp add: m'_def)
  qed
qed

lemma second_pass_assigned:
  "assigned (foldl location_visitor m ps) n \<longleftrightarrow>
     assigned m n \<or> (n \<in> fst ` set (closure m) \<and> (\<exists>p \<in> set ps. matching n p))"
proof (induction ps arbitrary: m)
  case Nil
  then show ?case by simp
next
  case (Cons p ps)
  have keys: "fst ` set (closure (location_visitor m p)) = fst ` set (closure m)"
    using location_visitor_keys [of m p] by (metis set_map)
  have step: "assigned (location_visitor m p) n \<longleftrightarrow>
              assigned m n \<or> (n \<in> fst ` set (closure m) \<and> matching n p)"
    by (auto simp: location_visitor_cases assigned_def update_conv' matching_def)
  show ?case
    using Cons.IH [of "location_visitor m p"] keys step by auto
qed

lemma update_set_cases:
  "(a, b) \<in> set (AList.update k v al) \<Longrightarrow> (a, b) = (k, v) \<or> (a, b) \<in> set al"
  by (induction al) (auto split: if_splits)

lemma first_pass_key_is_name:
  "(\<And>k v. (k, v) \<in> set (closure m) \<Longrightarrow> name v = k) \<Longrightarrow>
   (k, v) \<in> set (closure (foldl (capture_visitor globals fun_nd) m ast)) \<Longrightarrow> name v = k"
proof (induction ast arbitrary: m)
  case Nil
  then show ?case by simp
next
  case (Cons p ast)
  have "name v' = k'" if "(k', v') \<in> set (closure (capture_visitor globals fun_nd m p))" for k' v'
    using that Cons.prems(1) update_set_cases [of k' v' "name (node p)" "node p" "closure m"]
    by (auto simp: capture_visitor_registers split: if_splits)
  then show ?case
    using Cons.IH [of "capture_visitor globals fun_nd m p"] Cons.prems(2) by simp
qed

lemma relocate_name: "name (snd (relocate m ps e)) = name (snd e)"
  by (cases e) (auto simp: relocate_def split: option.splits)

lemma relocate_fst: "fst (relocate m ps e) = fst e"
  by (cases e) (auto simp: relocate_def)

lemma result_names:
  "map name (makeArrayFromCapturedBindings globals ast fun_nd fun_paths) =
   map fst (closure (capture_traversal globals fun_nd ast))"
proof -
  define m1 where "m1 = capture_traversal globals fun_nd ast"
  have d: "distinct (map fst (closure m1))"
    unfolding m1_def capture_traversal_def by (rule first_pass_distinct) simp
  have kn: "name v = k" if "(k, v) \<in> set (closure m1)" for k v
    using that unfolding m1_def capture_traversal_def
    by (rule first_pass_key_is_name [rotated]) simp
  have "map name (map snd (map (relocate m1 fun_paths) (closure m1))) =
        map (\<lambda>e. name (snd e)) (closure m1)"
    by (simp add: relocate_name comp_def)
  also have "\<dots> = map fst (closure m1)"
    by (rule map_cong) (use kn in auto)
  finally show ?thesis
    using second_pass_closure [OF d, of fun_paths]
    by (simp add: makeArrayFromCapturedBindings_def location_traversal_def m1_def)
qed

text \<open>
  Claim C1 says that every traversed reference that is not a global, not the
  function's own name, not a non-computed member property, not a shorthand key and not
  bound on its scope chain is registered. In \<^verbatim>\<open>{ [k]: v }\<close> the computed key \<^verbatim>\<open>k\<close> is such
  a reference, yet the guard on object properties returns early and only \<^verbatim>\<open>v\<close> is
  captured. The guard on member expressions does test \<^verbatim>\<open>computed\<close>: the \<^verbatim>\<open>k\<close> of \<^verbatim>\<open>obj[k]\<close>
  is captured.
\<close>

theorem computed_key_reference_not_captured:
  "isReferencedIdentifier computed_key_k
   \<and> name (node computed_key_k) \<notin> {}
   \<and> fun_id (FunctionExpression None) \<noteq> Some (name (node computed_key_k))
   \<and> parent computed_key_k = ObjectProperty False True False
   \<and> \<not> scope_walk (scope computed_key_k) (name (node computed_key_k))
   \<and> makeArrayFromCapturedBindings {} [computed_key_k, value_v] (FunctionExpression None)
        [computed_key_k, value_v] = [node value_v]
   \<and> makeArrayFromCapturedBindings {} [computed_member_k] (FunctionExpression None)
        [computed_member_k] = [node computed_member_k]"
  by (simp add: makeArrayFromCapturedBindings_def capture_traversal_def location_traversal_def
        capture_visitor_def location_visitor_def computed_key_k_def value_v_def
        computed_member_k_def Let_def lit_def)

text \<open>
  Claim C3, as stated, has the later occurrence of a registered name ignored, the
  stored node unchanged. The visitor calls \<^verbatim>\<open>closure.set(name, path.node)\<close> without
  looking the name up first: after a second free reference to \<^verbatim>\<open>x\<close> the map holds the
  node of the second reference.
\<close>

theorem later_reference_replaces_node:
  "closure (capture_traversal {} ArrowFunctionExpression [ref_x_first]) =
     [(lit ''x'', node ref_x_first)]
   \<and> closure (capture_traversal {} ArrowFunctionExpression [ref_x_first, ref_x_second]) =
       [(lit ''x'', node ref_x_second)]
   \<and> node ref_x_second \<noteq> node ref_x_first"
  by (simp add: capture_traversal_def capture_visitor_def ref_x_first_def ref_x_second_def
        Let_def lit_def)

text \<open>
  Claim C3, amended. The capture collection has set semantics by name: each captured
  name has one entry, at the position of the name's first discovery; when a registered
  name is referenced again, no entry is added or moved, and the stored node is replaced
  by the node of the later reference (the last registering occurrence wins); the names
  of the returned array are in the order of first discovery during the traversal.
\<close>

theorem capture_set_order_and_node:
  "distinct (map fst (closure (capture_traversal globals fun_nd ast)))
   \<and> map fst (closure (capture_traversal globals fun_nd ast)) =
       discovery_order (map (\<lambda>p. name (node p)) (filter (registers globals fun_nd) ast))
   \<and> map_of (closure (capture_traversal globals fun_nd ast)) n =
       map_option node (find (\<lambda>p. registers globals fun_nd p \<and> name (node p) = n) (rev ast))
   \<and> map name (makeArrayFromCapturedBindings globals ast fun_nd fun_paths) =
       discovery_order (map (\<lambda>p. name (node p)) (filter (registers globals fun_nd) ast))"
proof -
  let ?m0 = "\<lparr>closure = [], isLocationAssignedMap = []\<rparr>"
  have a: "distinct (map fst (closure (capture_traversal globals fun_nd ast)))"
    unfolding capture_traversal_def by (rule first_pass_distinct) simp
  have b: "map fst (closure (capture_traversal globals fun_nd ast)) =
       discovery_order (map (\<lambda>p. name (node p)) (filter (registers globals fun_nd) ast))"
    using first_pass_keys [of globals fun_nd ?m0 ast] by (simp add: capture_traversal_def)
  have c: "map_of (closure (capture_traversal globals fun_nd ast)) n =
       map_option node (find (\<lambda>p. registers globals fun_nd p \<and> name (node p) = n) (rev ast))"
    using first_pass_lookup [of globals fun_nd ?m0 ast n]
    by (simp add: capture_traversal_def split: option.splits)
  show ?thesis
    using a b c by (simp add: result_names)
qed

text \<open>
  Claim C7. The second traversal only assigns locations. From any state of the two
  maps (the keys of a \<^verbatim>\<open>Map\<close> are distinct): the names and their order are unchanged, so
  no binding is added or removed; an entry whose name is already assigned is left as it
  is; an entry not yet assigned gets the location of the first referenced identifier of
  that name in the original function (and keeps its own where there is none); and a
  name is assigned afterwards exactly when it was before or such an identifier exists.
\<close>

theorem second_traversal_only_assigns_locations:
  assumes "distinct (map fst (closure m))"
  shows "map fst (closure (location_traversal m fun_paths)) = map fst (closure m)
       \<and> closure (location_traversal m fun_paths) = map (relocate m fun_paths) (closure m)
       \<and> (assigned (location_traversal m fun_paths) n \<longleftrightarrow>
            assigned m n \<or> (n \<in> fst ` set (closure m) \<and> (\<exists>p \<in> set fun_paths. matching n p)))"
  using assms second_pass_keys [of m fun_paths] second_pass_closure [of m fun_paths]
        second_pass_assigned [of m fun_paths n]
  by (simp add: location_traversal_def)

theorem second_traversal_only_assigns_locations_witness:
  "distinct (map fst (closure example_maps))
   \<and> closure (location_traversal example_maps [value_v, ref_x_first, ref_x_second]) =
       [(lit ''x'', Identifier (lit ''x'') (Some ((2, 9), (2, 10)))),
        (lit ''y'', Identifier (lit ''y'') (Some ((1, 34), (1, 35))))]
   \<and> assigned (location_traversal example_maps [value_v, ref_x_first, ref_x_second]) (lit ''x'')"
proof -
  have d: "distinct (map fst (closure example_maps))"
    by (simp add: example_maps_def lit_def)
  have m: "matching (lit ''x'') ref_x_first" "\<not> matching (lit ''x'') value_v"
          "\<not> matching (lit ''y'') value_v" "\<not> matching (lit ''y'') ref_x_first"
          "\<not> matching (lit ''y'') ref_x_second"
    by (simp_all add: matching_def ref_x_first_def ref_x_second_def value_v_def lit_def)
  have a: "\<not> assigned example_maps (lit ''x'')" "assigned example_maps (lit ''y'')"
    by (simp_all add: assigned_def example_maps_def lit_def)
  have l: "loc (node ref_x_first) = Some ((2, 9), (2, 10))"
    by (simp add: ref_x_first_def)
  have c: "closure example_maps =
             [(lit ''x'', Identifier (lit ''x'') (Some ((1, 30), (1, 31)))),
              (lit ''y'', Identifier (lit ''y'') (Some ((1, 34), (1, 35))))]"
    by (simp add: example_maps_def)
  show ?thesis
    using second_traversal_only_assigns_locations [OF d, of "[value_v, ref_x_first, ref_x_second]" "lit ''x''"]
          d m a l
    by (simp add: c relocate_def)
qed

subsection \<open>The directive stripper\<close>

text \<open>Inside a nested function the traversal removes nothing.\<close>

lemma visit_nested:
  "functionParent \<noteq> [] \<Longrightarrow> path \<noteq> [] \<Longrightarrow> visit functionParent path n = [n]"
  "functionParent \<noteq> [] \<Longrightarrow> visit_children functionParent path i cs = cs"
  by (induction functionParent path n and functionParent path i cs
      rule: visit_visit_children.induct) auto

lemma visit_own:
  "path \<noteq> [] \<Longrightarrow> visit [] path n = without_own_worklet_directives n"
  "visit_children [] path i cs = without_own_worklet_directives_list cs"
proof (induction "[] :: nat list" path n and "[] :: nat list" path i cs
       rule: visit_visit_children.induct)
  case (2 path t cs)
  then show ?case by (simp add: visit_nested)
qed simp_all

lemma own_directives_append:
  "own_directives_list (xs @ ys) = own_directives_list xs @ own_directives_list ys"
  by (induction xs) simp_all

lemma nested_functions_append:
  "nested_functions_list (xs @ ys) = nested_functions_list xs @ nested_functions_list ys"
  by (induction xs) simp_all

lemma without_own_directives:
  "own_directives_list (without_own_worklet_directives n) =
     filter (\<lambda>v. v \<noteq> lit ''worklet'') (own_directives n)"
  "own_directives_list (without_own_worklet_directives_list cs) =
     filter (\<lambda>v. v \<noteq> lit ''worklet'') (own_directives_list cs)"
  by (induction n and cs rule: without_own_worklet_directives_without_own_worklet_directives_list.induct)
     (simp_all add: own_directives_append)

lemma without_nested_functions:
  "nested_functions_list (without_own_worklet_directives n) = nested_functions n"
  "nested_functions_list (without_own_worklet_directives_list cs) = nested_functions_list cs"
  by (induction n and cs rule: without_own_worklet_directives_without_own_worklet_directives_list.induct)
     (simp_all add: nested_functions_append)

lemma removeWorkletDirective_example:
  "removeWorkletDirective example_function = Function (lit ''FunctionDeclaration'')
     [Other (lit ''Identifier'') [],
      Other (lit ''BlockStatement'')
        [Directive (lit ''use strict''),
         Other (lit ''ReturnStatement'')
           [Function (lit ''ArrowFunctionExpression'')
              [Other (lit ''BlockStatement'') [Directive (lit ''worklet'')]]]]]"
  by (simp add: example_function_def lit_def)

text \<open>
  Claim C8. The stripper removes exactly the \<^verbatim>\<open>'worklet'\<close> directives whose nearest
  enclosing function is the function being processed: the result is the function with
  those directives erased and nothing else changed; of the directives of the function
  itself the others remain, in order; and every nested function, with any \<^verbatim>\<open>'worklet'\<close>
  directive of its own, is left as it was.
\<close>

theorem removeWorkletDirective_exact:
  "removeWorkletDirective (Function t cs) = Function t (without_own_worklet_directives_list cs)
   \<and> own_directives_list (children (removeWorkletDirective (Function t cs))) =
       filter (\<lambda>v. v \<noteq> lit ''worklet'') (own_directives_list cs)
   \<and> nested_functions_list (children (removeWorkletDirective (Function t cs))) =
       nested_functions_list cs"
  by (simp add: visit_own without_own_directives without_nested_functions)

subsection \<open>The worklet name\<close>

lemma lit_underscore: "lit ''_'' = [95]"
  by (simp add: lit_def)

lemma decimal_nonempty: "decimal n \<noteq> []"
  by (subst decimal.simps) simp

lemma unat_digit: "k < 10 \<Longrightarrow> unat (of_nat (48 + k) :: 16 word) = 48 + k"
proof -
  assume "k < 10"
  have "unat (65535 :: 16 word) = 65535" by simp
  then have "48 + k \<le> unat (65535 :: 16 word)" using \<open>k < 10\<close> by linarith
  then show ?thesis by (rule le_unat_uoi)
qed

lemma digit_inj:
  assumes "a < 10" "b < 10" "(of_nat (48 + a) :: 16 word) = of_nat (48 + b)"
  shows "a = b"
proof -
  have "unat (of_nat (48 + a) :: 16 word) = unat (of_nat (48 + b) :: 16 word)"
    using assms(3) by (rule arg_cong)
  then have "48 + a = 48 + b"
    by (simp only: unat_digit [OF assms(1)] unat_digit [OF assms(2)])
  then show ?thesis by simp
qed

lemma digit_not_underscore:
  assumes "a < 10"
  shows "(of_nat (48 + a) :: 16 word) \<noteq> 95"
proof
  assume "(of_nat (48 + a) :: 16 word) = 95"
  then have "unat (of_nat (48 + a) :: 16 word) = unat (95 :: 16 word)"
    by (rule arg_cong)
  then have "48 + a = unat (95 :: 16 word)"
    by (simp only: unat_digit [OF assms])
  moreover have "unat (95 :: 16 word) = 95" by simp
  ultimately show False using assms by linarith
qed

lemma decimal_no_underscore: "95 \<notin> set (decimal n)"
proof (induction n rule: decimal.induct)
  case (1 n)
  show ?case
  proof (cases "n < 10")
    case True
    then show ?thesis
      using digit_not_underscore [of n] by (subst decimal.simps) auto
  next
    case False
    have "n mod 10 < 10" by simp
    then have "(of_nat (48 + n mod 10) :: 16 word) \<noteq> 95"
      by (rule digit_not_underscore)
    then show ?thesis
      using False "1.IH" by (subst decimal.simps) auto
  qed
qed

lemma decimal_inj: "decimal n = decimal m \<Longrightarrow> n = m"
proof (induction n arbitrary: m rule: decimal.induct)
  case (1 n)
  have dn: "decimal n = (if n < 10 then [of_nat (48 + n)]
                         else decimal (n div 10) @ [of_nat (48 + n mod 10)])"
    by (rule decimal.simps)
  have dm: "decimal m = (if m < 10 then [of_nat (48 + m)]
                         else decimal (m div 10) @ [of_nat (48 + m mod 10)])"
    by (rule decimal.simps)
  show ?case
  proof (cases "n < 10")
    case n: True
    show ?thesis
    proof (cases "m < 10")
      case True
      then show ?thesis
        using "1.prems" n dn dm digit_inj [of n m] by simp
    next
      case False
      then show ?thesis
        using "1.prems" n dn dm decimal_nonempty [of "m div 10"] by simp
    qed
  next
    case n: False
    show ?thesis
    proof (cases "m < 10")
      case True
      then show ?thesis
        using "1.prems" n dn dm decimal_nonempty [of "n div 10"] by simp
    next
      case False
      then have e: "decimal (n div 10) = decimal (m div 10)"
                   "(of_nat (48 + n mod 10) :: 16 word) = of_nat (48 + m mod 10)"
        using "1.prems" n dn dm by simp_all
      have "n div 10 = m div 10"
        using "1.IH" [OF n e(1)] .
      moreover have "n mod 10 = m mod 10"
        using digit_inj [of "n mod 10" "m mod 10"] e(2) by simp
      ultimately show ?thesis
        by (metis div_mult_mod_eq)
    qed
  qed
qed

lemma count_decimal: "count_list (decimal n) 95 = 0"
  using decimal_no_underscore [of n] by (simp add: count_list_0_iff)

lemma unsanitized_name_distinct:
  assumes "c1 \<noteq> c2"
  shows "unsanitized_name basename f1 state c1 \<noteq> unsanitized_name basename f2 state c2"
proof
  define S where "S = source_name basename state"
  define T1 where "T1 = S @ decimal c1"
  define T2 where "T2 = S @ decimal c2"
  have cnt: "count_list T1 95 = count_list T2 95"
    by (simp add: T1_def T2_def count_decimal)
  have ne: "T1 \<noteq> T2"
    using assms decimal_inj by (auto simp: T1_def T2_def)
  have longer: "T1 \<noteq> us @ 95 # T2" "T2 \<noteq> us @ 95 # T1" for us
  proof -
    show "T1 \<noteq> us @ 95 # T2"
    proof
      assume "T1 = us @ 95 # T2"
      then have "count_list T1 95 = count_list (us @ 95 # T2) 95" by (rule arg_cong)
      then show False using cnt by simp
    qed
    show "T2 \<noteq> us @ 95 # T1"
    proof
      assume "T2 = us @ 95 # T1"
      then have "count_list T2 95 = count_list (us @ 95 # T1) 95" by (rule arg_cong)
      then show False using cnt by simp
    qed
  qed
  assume eq: "unsanitized_name basename f1 state c1 = unsanitized_name basename f2 state c2"
  show False
  proof (cases "own_name f1")
    case n1: None
    show ?thesis
    proof (cases "own_name f2")
      case None
      then show ?thesis
        using eq n1 ne by (simp add: unsanitized_name_def T1_def T2_def S_def)
    next
      case (Some i2)
      then show ?thesis
        using eq n1 longer(1) [of i2]
        by (simp add: unsanitized_name_def T1_def T2_def S_def lit_underscore)
    qed
  next
    case s1: (Some i1)
    show ?thesis
    proof (cases "own_name f2")
      case None
      then show ?thesis
        using eq s1 longer(2) [of i1]
        by (simp add: unsanitized_name_def T1_def T2_def S_def lit_underscore)
    next
      case (Some i2)
      then have e: "i1 @ 95 # T1 = i2 @ 95 # T2"
        using eq s1 by (simp add: unsanitized_name_def T1_def T2_def S_def lit_underscore)
      then obtain us where
        "(i1 = i2 @ us \<and> us @ 95 # T1 = 95 # T2) \<or> (i1 @ us = i2 \<and> 95 # T1 = us @ 95 # T2)"
        by (auto simp: append_eq_append_conv2)
      then show ?thesis
      proof
        assume a: "i1 = i2 @ us \<and> us @ 95 # T1 = 95 # T2"
        show False
        proof (cases us)
          case Nil
          then show ?thesis using a ne by simp
        next
          case (Cons u us')
          then show ?thesis using a longer(2) [of us'] by simp
        qed
      next
        assume a: "i1 @ us = i2 \<and> 95 # T1 = us @ 95 # T2"
        show False
        proof (cases us)
          case Nil
          then show ?thesis using a ne by simp
        next
          case (Cons u us')
          then show ?thesis using a longer(1) [of us'] by simp
        qed
      qed
    qed
  qed
qed

lemma source_name_counter [simp]:
  "source_name basename (state\<lparr>workletNumber := c\<rparr>) = source_name basename state"
  by (simp add: source_name_def)

lemma unsanitized_name_counter [simp]:
  "unsanitized_name basename f (state\<lparr>workletNumber := c\<rparr>) k = unsanitized_name basename f state k"
  by (simp add: unsanitized_name_def)

lemma makeWorkletName_unsanitized:
  "makeWorkletName toIdentifier basename fun_nd state =
     (toIdentifier (unsanitized_name basename fun_nd state (workletNumber state)),
      state\<lparr>workletNumber := workletNumber state + 1\<rparr>)"
proof (cases fun_nd)
  case (ObjectMethod k)
  then show ?thesis
    by (cases k) (simp_all add: makeWorkletName_def unsanitized_name_def Let_def)
next
  case (FunctionDeclaration i)
  then show ?thesis
    by (cases i) (simp_all add: makeWorkletName_def unsanitized_name_def Let_def)
next
  case (FunctionExpression i)
  then show ?thesis
    by (cases i) (simp_all add: makeWorkletName_def unsanitized_name_def Let_def)
next
  case ArrowFunctionExpression
  then show ?thesis
    by (simp add: makeWorkletName_def unsanitized_name_def Let_def)
qed

lemma name_worklets_state:
  "snd (name_worklets toIdentifier basename funs state) =
     state\<lparr>workletNumber := workletNumber state + length funs\<rparr>"
  by (induction funs arbitrary: state)
     (simp_all add: makeWorkletName_unsanitized case_prod_beta)

lemma name_worklets_nth:
  "k < length funs \<Longrightarrow>
   fst (name_worklets toIdentifier basename funs state) ! k =
     toIdentifier (unsanitized_name basename (funs ! k) state (workletNumber state + k))"
proof (induction funs arbitrary: state k)
  case Nil
  then show ?case by simp
next
  case (Cons f funs)
  show ?case
  proof (cases k)
    case 0
    then show ?thesis
      by (simp add: makeWorkletName_unsanitized case_prod_beta)
  next
    case (Suc k')
    then have "k' < length funs" using Cons.prems by simp
    then show ?thesis
      using Cons.IH [of k' "state\<lparr>workletNumber := workletNumber state + 1\<rparr>"] Suc
      by (simp add: makeWorkletName_unsanitized case_prod_beta)
  qed
qed

lemma toIdentifier_no_letter:
  assumes "\<forall>c \<in> set input. isDigit c \<or> \<not> isIdentifierChar c"
  shows "babel_toIdentifier isIdentifierChar isValidIdentifier toUpperCase input = lit ''_''"
proof -
  have "\<forall>x \<in> set (map (\<lambda>c. if isIdentifierChar c then c else 45) input). x = 45 \<or> isDigit x"
    using assms by auto
  then have e: "dropWhile (\<lambda>c. c = 45 \<or> isDigit c)
          (map (\<lambda>c. if isIdentifierChar c then c else 45) input) = []"
    by (simp only: dropWhile_eq_Nil_conv)
  show ?thesis
    unfolding babel_toIdentifier_def Let_def e by (simp add: lit_underscore)
qed

text \<open>
  Babel's \<^verbatim>\<open>toIdentifier\<close> on a string that has an identifier character other than a
  digit, then characters that are digits or no identifier characters, then a counter.
  The last such character \<open>l\<close> is kept, or replaced by its upper case; what follows it
  in the result are the digits after it and the counter. So the result ends in a
  character that is not a digit, followed by digits that end in the counter, and
  different counters give different results, whatever stands before \<open>l\<close>. Used of the
  tables: digits are identifier characters and their own upper case; an identifier
  character that is not a digit is no separator, and its upper case is not empty and
  does not end in a digit.
\<close>

lemma isDigit_unat: "isDigit c \<longleftrightarrow> 48 \<le> unat c \<and> unat c \<le> 57"
  by (simp add: isDigit_def word_le_nat_alt)

lemma isSeparator_cases:
  assumes "isSeparator c"
  shows "unat c \<in> {9, 10, 11, 12, 13, 32, 45} \<or> 160 \<le> unat c"
proof -
  from assms consider "c \<in> {9, 10, 11, 12, 13, 32, 45}"
    | "c \<in> {160, 5760, 8232, 8233, 8239, 8287, 12288, 65279}" | "8192 \<le> c"
    by (auto simp: isSeparator_def isWhiteSpace_def)
  then show ?thesis
  proof cases
    case 1
    then show ?thesis by auto
  next
    case 2
    then show ?thesis by auto
  next
    case 3
    then have "8192 \<le> unat c" by (simp add: word_le_nat_alt)
    then show ?thesis by simp
  qed
qed

lemma digit_not_separator: "isDigit c \<Longrightarrow> \<not> isSeparator c"
  using isSeparator_cases [of c] by (auto simp: isDigit_unat)

lemma decimal_digits: "c \<in> set (decimal n) \<Longrightarrow> isDigit c"
proof (induction n arbitrary: c rule: decimal.induct)
  case (1 n)
  have d: "isDigit (of_nat (48 + k) :: 16 word)" if "k < 10" for k
    using unat_digit [OF that] that by (simp add: isDigit_unat)
  show ?case
  proof (cases "n < 10")
    case True
    then show ?thesis
      using "1.prems" d [of n] by (subst (asm) decimal.simps) simp
  next
    case False
    have "n mod 10 < 10" by simp
    then have "isDigit (of_nat (48 + n mod 10) :: 16 word)" by (rule d)
    then show ?thesis
      using False "1.prems" "1.IH" by (subst (asm) decimal.simps) auto
  qed
qed

lemma dropWhile_separator_append:
  "\<not> isSeparator l \<Longrightarrow>
   dropWhile isSeparator (cs @ l # D) =
     (case dropWhile isSeparator cs of [] \<Rightarrow> l # D | d # ds \<Rightarrow> d # ds @ l # D)"
  by (induction cs) auto

lemma camelCase_split:
  assumes "\<not> isSeparator l"
  shows "camelCase U (xs @ l # R) = camelCase U (xs @ [l]) @ camelCase U R"
proof (induction "length xs" arbitrary: xs rule: less_induct)
  case less
  show ?case
  proof (cases xs)
    case Nil
    then show ?thesis using assms by simp
  next
    case (Cons c cs)
    show ?thesis
    proof (cases "isSeparator c")
      case False
      then show ?thesis
        using less [of cs] Cons by simp
    next
      case True
      show ?thesis
      proof (cases "dropWhile isSeparator cs")
        case Nil
        then show ?thesis
          using True Cons assms
          by (simp add: dropWhile_separator_append)
      next
        case (Cons d ds)
        have "length (d # ds) \<le> length cs"
          by (metis Cons length_dropWhile_le)
        then have "length ds < length xs"
          using \<open>xs = c # cs\<close> by simp
        then have "camelCase U (ds @ l # R) = camelCase U (ds @ [l]) @ camelCase U R"
          by (rule less)
        then show ?thesis
          using True Cons \<open>xs = c # cs\<close> assms(1)
          by (simp add: dropWhile_separator_append)
      qed
    qed
  qed
qed

lemma camelCase_last:
  assumes "\<not> isSeparator l" and "\<not> isDigit l" and "U l \<noteq> []" and "\<not> isDigit (last (U l))"
  shows "camelCase U (xs @ [l]) \<noteq> [] \<and> \<not> isDigit (last (camelCase U (xs @ [l])))"
proof (induction "length xs" arbitrary: xs rule: less_induct)
  case less
  show ?case
  proof (cases xs)
    case Nil
    then show ?thesis using assms by simp
  next
    case (Cons c cs)
    show ?thesis
    proof (cases "isSeparator c")
      case False
      then show ?thesis
        using less [of cs] Cons by simp
    next
      case True
      show ?thesis
      proof (cases "dropWhile isSeparator cs")
        case Nil
        then show ?thesis
          using True Cons assms
          by (simp add: dropWhile_separator_append [where D = "[]"])
      next
        case (Cons d ds)
        have "length (d # ds) \<le> length cs"
          by (metis Cons length_dropWhile_le)
        then have "length ds < length xs"
          using \<open>xs = c # cs\<close> by simp
        then have "camelCase U (ds @ [l]) \<noteq> [] \<and> \<not> isDigit (last (camelCase U (ds @ [l])))"
          by (rule less)
        then show ?thesis
          using True Cons \<open>xs = c # cs\<close> assms(1)
          by (simp add: dropWhile_separator_append [where D = "[]"])
      qed
    qed
  qed
qed

lemma camelCase_digits:
  assumes up: "\<forall>c. isDigit c \<longrightarrow> U c = [c]"
  shows "\<forall>c \<in> set R. isDigit c \<or> c = 45 \<Longrightarrow> camelCase U R = filter isDigit R"
proof (induction "length R" arbitrary: R rule: less_induct)
  case less
  show ?case
  proof (cases R)
    case Nil
    then show ?thesis by simp
  next
    case (Cons c cs)
    have cs: "\<forall>c \<in> set cs. isDigit c \<or> c = 45" using less.prems Cons by simp
    show ?thesis
    proof (cases "isSeparator c")
      case False
      then have "isDigit c" using less.prems Cons by (auto simp: isSeparator_def)
      then show ?thesis
        using less.hyps [of cs] cs Cons False by simp
    next
      case True
      then have nd: "\<not> isDigit c" using digit_not_separator by blast
      have tk: "filter isDigit (takeWhile isSeparator cs) = []"
        using digit_not_separator by (auto simp: filter_empty_conv dest: set_takeWhileD)
      have sp: "filter isDigit cs = filter isDigit (dropWhile isSeparator cs)"
      proof -
        have "filter isDigit cs =
              filter isDigit (takeWhile isSeparator cs @ dropWhile isSeparator cs)"
          by simp
        also have "\<dots> = filter isDigit (dropWhile isSeparator cs)"
          unfolding filter_append tk by simp
        finally show ?thesis .
      qed
      show ?thesis
      proof (cases "dropWhile isSeparator cs")
        case Nil
        have "camelCase U (c # cs) = []"
          using True by (simp add: Nil)
        moreover have "filter isDigit (c # cs) = []"
          using nd sp by (simp add: Nil)
        ultimately show ?thesis
          using \<open>R = c # cs\<close> by simp
      next
        case (Cons d ds)
        have "length (d # ds) \<le> length cs"
          by (metis Cons length_dropWhile_le)
        then have len: "length ds < length R"
          using \<open>R = c # cs\<close> by simp
        have "set (d # ds) \<subseteq> set cs"
          by (metis Cons set_dropWhileD subsetI)
        then have ds: "\<forall>c \<in> set ds. isDigit c \<or> c = 45" and d: "isDigit d \<or> d = 45"
          using cs by auto
        have "\<not> isSeparator d"
          using Cons by (metis hd_dropWhile list.sel(1) list.distinct(1))
        then have dd: "isDigit d" using d by (auto simp: isSeparator_def)
        have "camelCase U ds = filter isDigit ds"
          using len ds by (rule less.hyps)
        then show ?thesis
          using True nd \<open>R = c # cs\<close> sp Cons dd up by simp
      qed
    qed
  qed
qed

lemma digit_suffix_unique:
  assumes "A \<noteq> []" "\<not> isDigit (last A)" "B \<noteq> []" "\<not> isDigit (last B)"
    and "\<forall>c \<in> set D1. isDigit c" "\<forall>c \<in> set D2. isDigit c"
    and "A @ D1 = B @ D2"
  shows "D1 = D2"
proof -
  have t: "takeWhile isDigit (rev (X @ D)) = rev D"
    if "X \<noteq> []" "\<not> isDigit (last X)" "\<forall>c \<in> set D. isDigit c" for X D
  proof -
    have "takeWhile isDigit (rev X) = []"
      using that(1,2) by (cases "rev X") (auto simp: last_rev [symmetric] simp del: last_rev)
    moreover have "takeWhile isDigit (rev D @ rev X) = rev D @ takeWhile isDigit (rev X)"
      using that(3) by (intro takeWhile_append2) simp
    ultimately show ?thesis by simp
  qed
  have "takeWhile isDigit (rev (A @ D1)) = takeWhile isDigit (rev (B @ D2))"
    using assms(7) by simp
  then have "rev D1 = rev D2"
    by (simp only: t [OF assms(1,2,5)] t [OF assms(3,4,6)])
  then show ?thesis by simp
qed

lemma dropWhile_keep:
  "\<not> Q l \<Longrightarrow> dropWhile Q (B @ l # D) = dropWhile Q B @ l # D"
  by (induction B) auto

lemma babel_toIdentifier_form:
  assumes digits: "\<forall>c. isDigit c \<longrightarrow> isIdentifierChar c \<and> toUpperCase c = [c]"
    and letters: "\<forall>c. isIdentifierChar c \<and> \<not> isDigit c \<longrightarrow>
                   \<not> isSeparator c \<and> toUpperCase c \<noteq> [] \<and> \<not> isDigit (last (toUpperCase c))"
    and l: "isIdentifierChar l" "\<not> isDigit l"
    and T: "\<forall>c \<in> set T. isDigit c \<or> \<not> isIdentifierChar c"
  shows "\<exists>Y. Y \<noteq> [] \<and> \<not> isDigit (last Y) \<and>
           (\<forall>n. \<exists>p. (p = [] \<or> p = [95]) \<and>
              babel_toIdentifier isIdentifierChar isValidIdentifier toUpperCase
                (A @ l # T @ decimal n) = p @ Y @ filter isDigit T @ decimal n)"
proof -
  define f where "f = (\<lambda>c :: 16 word. if isIdentifierChar c then c else 45)"
  define Q where "Q = (\<lambda>c :: 16 word. c = 45 \<or> isDigit c)"
  define X where "X = dropWhile Q (map f A)"
  define Y where "Y = camelCase toUpperCase (X @ [l])"
  have ls: "\<not> isSeparator l" "toUpperCase l \<noteq> []" "\<not> isDigit (last (toUpperCase l))"
    using letters l by simp_all
  have l45: "l \<noteq> 45" using ls(1) by (auto simp: isSeparator_def)
  have nQ: "\<not> Q l" using l l45 by (simp add: Q_def)
  have n45: "\<not> isDigit 45" by (simp add: isDigit_def)
  have up: "\<forall>c. isDigit c \<longrightarrow> toUpperCase c = [c]" using digits by simp
  have fT: "filter isDigit (map f T) = filter isDigit T"
    using T digits n45 by (induction T) (auto simp: f_def)
  have Y: "Y \<noteq> [] \<and> \<not> isDigit (last Y)"
    unfolding Y_def using ls(1) l(2) ls(2,3) by (rule camelCase_last)
  have unf: "babel_toIdentifier isIdentifierChar isValidIdentifier toUpperCase input =
        (let name3 = camelCase toUpperCase (dropWhile Q (map f input));
             name4 = (if \<not> isValidIdentifier name3 then [95] @ name3 else name3)
         in if name4 = [] then [95] else name4)" for input
    by (simp add: babel_toIdentifier_def f_def Q_def Let_def lit_underscore)
  have res: "\<exists>p. (p = [] \<or> p = [95]) \<and>
              babel_toIdentifier isIdentifierChar isValidIdentifier toUpperCase
                (A @ l # T @ decimal n) = p @ Y @ filter isDigit T @ decimal n" for n
  proof -
    define R where "R = map f T @ decimal n"
    have fd: "map f (decimal n) = decimal n"
      using decimal_digits digits by (intro map_idI) (auto simp: f_def)
    have n1: "map f (A @ l # T @ decimal n) = map f A @ l # R"
      using l(1) fd by (simp add: f_def R_def)
    have n2: "dropWhile Q (map f A @ l # R) = X @ l # R"
      using nQ by (simp add: dropWhile_keep X_def)
    have n3: "camelCase toUpperCase (X @ l # R) = Y @ camelCase toUpperCase R"
      unfolding Y_def using ls(1) by (rule camelCase_split)
    have Rd: "\<forall>c \<in> set R. isDigit c \<or> c = 45"
      using T decimal_digits by (auto simp: R_def f_def)
    have n4: "camelCase toUpperCase R = filter isDigit R"
      using up Rd by (rule camelCase_digits)
    have fdec: "filter isDigit (decimal n) = decimal n"
      using decimal_digits by (simp add: filter_id_conv)
    have n5: "filter isDigit R = filter isDigit T @ decimal n"
      by (simp add: R_def fT fdec)
    have chain: "camelCase toUpperCase (dropWhile Q (map f (A @ l # T @ decimal n))) =
                 Y @ filter isDigit T @ decimal n"
      by (simp only: n1 n2 n3 n4 n5)
    have "babel_toIdentifier isIdentifierChar isValidIdentifier toUpperCase
            (A @ l # T @ decimal n) =
          (if \<not> isValidIdentifier (Y @ filter isDigit T @ decimal n) then [95] else [])
          @ Y @ filter isDigit T @ decimal n"
      unfolding unf Let_def chain using Y by simp
    then show ?thesis by auto
  qed
  show ?thesis
    using Y res by blast
qed

lemma babel_toIdentifier_not_underscore:
  assumes digits: "\<forall>c. isDigit c \<longrightarrow> isIdentifierChar c \<and> toUpperCase c = [c]"
    and letters: "\<forall>c. isIdentifierChar c \<and> \<not> isDigit c \<longrightarrow>
                   \<not> isSeparator c \<and> toUpperCase c \<noteq> [] \<and> \<not> isDigit (last (toUpperCase c))"
    and l: "isIdentifierChar l" "\<not> isDigit l"
    and T: "\<forall>c \<in> set T. isDigit c \<or> \<not> isIdentifierChar c"
  shows "babel_toIdentifier isIdentifierChar isValidIdentifier toUpperCase
           (A @ l # T @ decimal n) \<noteq> lit ''_''"
proof -
  obtain Y where Y: "Y \<noteq> []" "\<And>k. \<exists>p.
      babel_toIdentifier isIdentifierChar isValidIdentifier toUpperCase
        (A @ l # T @ decimal k) = p @ Y @ filter isDigit T @ decimal k"
    using babel_toIdentifier_form [OF digits letters l T, of isValidIdentifier A] by blast
  obtain p where p:
    "babel_toIdentifier isIdentifierChar isValidIdentifier toUpperCase
       (A @ l # T @ decimal n) = p @ Y @ filter isDigit T @ decimal n"
    using Y(2) [of n] by blast
  have "2 \<le> length (p @ Y @ filter isDigit T @ decimal n)"
    using Y(1) decimal_nonempty [of n]
    by (cases Y; cases "decimal n") simp_all
  then have "length (p @ Y @ filter isDigit T @ decimal n) \<noteq> length (lit ''_'')"
    by (simp add: lit_underscore)
  then have "p @ Y @ filter isDigit T @ decimal n \<noteq> lit ''_''"
    by (rule contrapos_nn) (rule arg_cong)
  then show ?thesis
    unfolding p .
qed

lemma babel_toIdentifier_counter_distinct:
  assumes digits: "\<forall>c. isDigit c \<longrightarrow> isIdentifierChar c \<and> toUpperCase c = [c]"
    and letters: "\<forall>c. isIdentifierChar c \<and> \<not> isDigit c \<longrightarrow>
                   \<not> isSeparator c \<and> toUpperCase c \<noteq> [] \<and> \<not> isDigit (last (toUpperCase c))"
    and l1: "isIdentifierChar l1" "\<not> isDigit l1"
    and l2: "isIdentifierChar l2" "\<not> isDigit l2"
    and T: "\<forall>c \<in> set T. isDigit c \<or> \<not> isIdentifierChar c"
    and nm: "n \<noteq> m"
  shows "babel_toIdentifier isIdentifierChar isValidIdentifier toUpperCase
           (A1 @ l1 # T @ decimal n) \<noteq>
         babel_toIdentifier isIdentifierChar isValidIdentifier toUpperCase
           (A2 @ l2 # T @ decimal m)"
proof
  obtain Y1 where Y1: "Y1 \<noteq> []" "\<not> isDigit (last Y1)" "\<And>k. \<exists>p.
      babel_toIdentifier isIdentifierChar isValidIdentifier toUpperCase
        (A1 @ l1 # T @ decimal k) = p @ Y1 @ filter isDigit T @ decimal k"
    using babel_toIdentifier_form [OF digits letters l1 T, of isValidIdentifier A1] by blast
  obtain Y2 where Y2: "Y2 \<noteq> []" "\<not> isDigit (last Y2)" "\<And>k. \<exists>p.
      babel_toIdentifier isIdentifierChar isValidIdentifier toUpperCase
        (A2 @ l2 # T @ decimal k) = p @ Y2 @ filter isDigit T @ decimal k"
    using babel_toIdentifier_form [OF digits letters l2 T, of isValidIdentifier A2] by blast
  obtain p where p:
    "babel_toIdentifier isIdentifierChar isValidIdentifier toUpperCase
       (A1 @ l1 # T @ decimal n) = (p @ Y1) @ filter isDigit T @ decimal n"
    using Y1(3) [of n] by auto
  obtain q where q:
    "babel_toIdentifier isIdentifierChar isValidIdentifier toUpperCase
       (A2 @ l2 # T @ decimal m) = (q @ Y2) @ filter isDigit T @ decimal m"
    using Y2(3) [of m] by auto
  have Z: "p @ Y1 \<noteq> []" "\<not> isDigit (last (p @ Y1))" "q @ Y2 \<noteq> []" "\<not> isDigit (last (q @ Y2))"
    using Y1(1,2) Y2(1,2) by simp_all
  have d: "\<forall>c \<in> set (filter isDigit T @ decimal k). isDigit c" for k
    using decimal_digits by auto
  assume "babel_toIdentifier isIdentifierChar isValidIdentifier toUpperCase
            (A1 @ l1 # T @ decimal n) =
          babel_toIdentifier isIdentifierChar isValidIdentifier toUpperCase
            (A2 @ l2 # T @ decimal m)"
  then have eq: "(p @ Y1) @ filter isDigit T @ decimal n = (q @ Y2) @ filter isDigit T @ decimal m"
    by (simp only: p q)
  have "filter isDigit T @ decimal n = filter isDigit T @ decimal m"
    using Z d [of n] d [of m] eq by (rule digit_suffix_unique)
  then have "decimal n = decimal m" by simp
  then show False using nm decimal_inj by blast
qed

text \<open>
  The hypothesis on the upper case is needed. Were \<^verbatim>\<open>_\<close> no identifier character and the
  upper case of \<^verbatim>\<open>s\<close> the digit \<^verbatim>\<open>1\<close>, then in a file named \<^verbatim>\<open>-s\<close> the function \<^verbatim>\<open>s\<close> at
  counter 1 and an unnamed function at counter 11 would get the same name.
\<close>

lemma upper_case_ending_in_digit_collides:
  "babel_toIdentifier (\<lambda>c. c \<noteq> 45 \<and> c \<noteq> 95) (\<lambda>nm. True)
     (\<lambda>c. if c = 115 then [49] else [c]) (lit ''s_-s1'') = lit ''s11''
   \<and> babel_toIdentifier (\<lambda>c. c \<noteq> 45 \<and> c \<noteq> 95) (\<lambda>nm. True)
     (\<lambda>c. if c = 115 then [49] else [c]) (lit ''-s11'') = lit ''s11''"
  by code_simp

text \<open>The ASCII tables have the properties used of Babel's.\<close>

lemma ascii_isIdentifierChar_unat:
  "ascii_isIdentifierChar c \<Longrightarrow>
     (97 \<le> unat c \<and> unat c \<le> 122) \<or> (65 \<le> unat c \<and> unat c \<le> 90)
     \<or> (48 \<le> unat c \<and> unat c \<le> 57) \<or> unat c = 36 \<or> unat c = 95"
  by (auto simp: ascii_isIdentifierChar_def isDigit_def word_le_nat_alt)

lemma ascii_digits:
  "\<forall>c. isDigit c \<longrightarrow> ascii_isIdentifierChar c \<and> ascii_toUpperCase c = [c]"
  by (auto simp: ascii_isIdentifierChar_def ascii_toUpperCase_def isDigit_def word_le_nat_alt)

lemma ascii_letters:
  "\<forall>c. ascii_isIdentifierChar c \<and> \<not> isDigit c \<longrightarrow>
        \<not> isSeparator c \<and> ascii_toUpperCase c \<noteq> []
        \<and> \<not> isDigit (last (ascii_toUpperCase c))"
proof (intro allI impI conjI)
  fix c :: "16 word"
  assume a: "ascii_isIdentifierChar c \<and> \<not> isDigit c"
  show "\<not> isSeparator c"
    using a ascii_isIdentifierChar_unat [of c] isSeparator_cases [of c] by auto
  show "ascii_toUpperCase c \<noteq> []"
    by (simp add: ascii_toUpperCase_def)
  show "\<not> isDigit (last (ascii_toUpperCase c))"
  proof (cases "97 \<le> c \<and> c \<le> 122")
    case False
    have "ascii_toUpperCase c = [c]"
      unfolding ascii_toUpperCase_def using False by (rule if_not_P)
    then show ?thesis using a by simp
  next
    case True
    then have u: "97 \<le> unat c" by (simp add: word_le_nat_alt)
    have "(32 :: 16 word) \<le> c" using u by (simp add: word_le_nat_alt)
    then have "unat (c - 32) = unat c - unat (32 :: 16 word)" by (rule unat_sub)
    then have "65 \<le> unat (c - 32)" using u by simp
    then show ?thesis using True by (simp add: ascii_toUpperCase_def isDigit_unat)
  qed
qed

lemma ascii_underscore: "ascii_isIdentifierChar 95"
  by (simp add: ascii_isIdentifierChar_def)

text \<open>
  Claim C6, as stated, has two worklets of one file always receive different resolved
  names. The counter does make the strings handed to \<^verbatim>\<open>toIdentifier\<close> different, but
  \<^verbatim>\<open>toIdentifier\<close> drops leading digits: in the file \<^verbatim>\<open>/app/2024\<close> the first two unnamed
  worklets are both named \<^verbatim>\<open>_\<close>.
\<close>

theorem digit_file_names_collide:
  "fst (makeWorkletName ascii_toIdentifier posix_basename ArrowFunctionExpression
          digits_file_state) = lit ''_''
   \<and> fst (makeWorkletName ascii_toIdentifier posix_basename ArrowFunctionExpression
            (snd (makeWorkletName ascii_toIdentifier posix_basename ArrowFunctionExpression
                    digits_file_state))) = lit ''_''"
  by code_simp

text \<open>
  Claim C6, amended. Every call of \<^verbatim>\<open>makeWorkletName\<close> reads the current counter into the
  suffix of the string it hands to \<^verbatim>\<open>toIdentifier\<close> and then increments the counter. So
  of the worklets of one file, named in sequence, the \<open>i\<close>-th and the \<open>j\<close>-th are named
  from different strings, whatever their own names; for two unnamed functions these
  strings are the source name followed by the two counter values. With Babel's
  \<^verbatim>\<open>toIdentifier\<close> the resolved names of the two differ as well, whatever their own names,
  when the source name (the base name of the file, after the library name and \<^verbatim>\<open>_\<close> for
  a file under \<^verbatim>\<open>node_modules\<close>) has an identifier character that is not a digit, and
  also when one of the two functions has a name. The names of two unnamed functions
  are then one stem followed by the two counter values, each after a \<^verbatim>\<open>_\<close> where
  \<^verbatim>\<open>toIdentifier\<close> finds the name invalid. In the remaining case, two unnamed functions
  of a file whose source name has only digits and characters that are no identifier
  characters, both are named \<^verbatim>\<open>_\<close>.

  Used of Babel's tables, all of it true of them: digits are identifier characters
  and their own upper case; an identifier character that is not a digit is no dash and
  no white space, and its upper case is not empty and does not end in a digit; and,
  for a function with a name in a file whose source name has no such character, that
  \<^verbatim>\<open>_\<close> is an identifier character.
\<close>

theorem worklet_names_in_one_file:
  assumes "i < j" and "j < length funs"
  shows "makeWorkletName toIdentifier basename fun_nd state =
           (toIdentifier (unsanitized_name basename fun_nd state (workletNumber state)),
            state\<lparr>workletNumber := workletNumber state + 1\<rparr>)
       \<and> fst (name_worklets toIdentifier basename funs state) ! i =
           toIdentifier (unsanitized_name basename (funs ! i) state (workletNumber state + i))
       \<and> fst (name_worklets toIdentifier basename funs state) ! j =
           toIdentifier (unsanitized_name basename (funs ! j) state (workletNumber state + j))
       \<and> unsanitized_name basename (funs ! i) state (workletNumber state + i) \<noteq>
           unsanitized_name basename (funs ! j) state (workletNumber state + j)
       \<and> (own_name (funs ! i) = None \<and> own_name (funs ! j) = None \<longrightarrow>
            unsanitized_name basename (funs ! i) state (workletNumber state + i) =
              source_name basename state @ decimal (workletNumber state + i)
          \<and> unsanitized_name basename (funs ! j) state (workletNumber state + j) =
              source_name basename state @ decimal (workletNumber state + j))
       \<and> (toIdentifier = babel_toIdentifier isIdentifierChar isValidIdentifier toUpperCase
          \<and> (\<forall>c. isDigit c \<longrightarrow> isIdentifierChar c \<and> toUpperCase c = [c])
          \<and> (\<forall>c. isIdentifierChar c \<and> \<not> isDigit c \<longrightarrow>
                 \<not> isSeparator c \<and> toUpperCase c \<noteq> []
                 \<and> \<not> isDigit (last (toUpperCase c)))
          \<and> ((\<exists>l \<in> set (source_name basename state). isIdentifierChar l \<and> \<not> isDigit l)
             \<or> isIdentifierChar 95
                \<and> (own_name (funs ! i) \<noteq> None \<or> own_name (funs ! j) \<noteq> None)) \<longrightarrow>
            fst (name_worklets toIdentifier basename funs state) ! i \<noteq>
            fst (name_worklets toIdentifier basename funs state) ! j)
       \<and> (toIdentifier = babel_toIdentifier isIdentifierChar isValidIdentifier toUpperCase
          \<and> (\<forall>c. isDigit c \<longrightarrow> isIdentifierChar c \<and> toUpperCase c = [c])
          \<and> (\<forall>c. isIdentifierChar c \<and> \<not> isDigit c \<longrightarrow>
                 \<not> isSeparator c \<and> toUpperCase c \<noteq> []
                 \<and> \<not> isDigit (last (toUpperCase c)))
          \<and> (\<exists>l \<in> set (source_name basename state). isIdentifierChar l \<and> \<not> isDigit l)
          \<and> own_name (funs ! i) = None \<and> own_name (funs ! j) = None \<longrightarrow>
            (\<exists>stem p q. (p = [] \<or> p = lit ''_'') \<and> (q = [] \<or> q = lit ''_'')
               \<and> fst (name_worklets toIdentifier basename funs state) ! i =
                   p @ stem @ decimal (workletNumber state + i)
               \<and> fst (name_worklets toIdentifier basename funs state) ! j =
                   q @ stem @ decimal (workletNumber state + j)))
       \<and> (toIdentifier = babel_toIdentifier isIdentifierChar isValidIdentifier toUpperCase
          \<and> (\<forall>c \<in> set (source_name basename state). isDigit c \<or> \<not> isIdentifierChar c)
          \<and> own_name (funs ! i) = None \<and> own_name (funs ! j) = None \<longrightarrow>
            fst (name_worklets toIdentifier basename funs state) ! i = lit ''_''
          \<and> fst (name_worklets toIdentifier basename funs state) ! j = lit ''_'')"
proof -
  let ?ri = "unsanitized_name basename (funs ! i) state (workletNumber state + i)"
  let ?rj = "unsanitized_name basename (funs ! j) state (workletNumber state + j)"
  let ?B = "babel_toIdentifier isIdentifierChar isValidIdentifier toUpperCase"
  define S where "S = source_name basename state"
  define ci where "ci = workletNumber state + i"
  define cj where "cj = workletNumber state + j"
  have cnt: "ci \<noteq> cj" using assms(1) by (simp add: ci_def cj_def)
  have i: "i < length funs" using assms by simp
  have ne: "?ri \<noteq> ?rj"
    using assms(1) by (intro unsanitized_name_distinct) simp
  have ni: "fst (name_worklets toIdentifier basename funs state) ! i = toIdentifier ?ri"
    using i by (rule name_worklets_nth)
  have nj: "fst (name_worklets toIdentifier basename funs state) ! j = toIdentifier ?rj"
    using assms(2) by (rule name_worklets_nth)
  have unnamed: "unsanitized_name basename (funs ! k) state c = S @ decimal c"
    if "own_name (funs ! k) = None" for k c
    using that by (simp add: unsanitized_name_def S_def)
  have named: "unsanitized_name basename (funs ! k) state c = x @ 95 # S @ decimal c"
    if "own_name (funs ! k) = Some x" for k c x
    using that by (simp add: unsanitized_name_def S_def lit_underscore)
  have babel: "?B ?ri \<noteq> ?B ?rj"
    if d: "\<forall>c. isDigit c \<longrightarrow> isIdentifierChar c \<and> toUpperCase c = [c]"
      and t: "\<forall>c. isIdentifierChar c \<and> \<not> isDigit c \<longrightarrow>
                 \<not> isSeparator c \<and> toUpperCase c \<noteq> []
                 \<and> \<not> isDigit (last (toUpperCase c))"
      and g: "(\<exists>l \<in> set S. isIdentifierChar l \<and> \<not> isDigit l)
             \<or> isIdentifierChar 95
                \<and> (own_name (funs ! i) \<noteq> None \<or> own_name (funs ! j) \<noteq> None)"
  proof (cases "\<exists>l \<in> set S. isIdentifierChar l \<and> \<not> isDigit l")
    case True
    then obtain S1 l T where sp: "S = S1 @ l # T" and l: "isIdentifierChar l \<and> \<not> isDigit l"
      and T: "\<forall>c \<in> set T. \<not> (isIdentifierChar c \<and> \<not> isDigit c)"
      by (rule split_list_last_propE)
    have l': "isIdentifierChar l" "\<not> isDigit l" using l by simp_all
    have T': "\<forall>c \<in> set T. isDigit c \<or> \<not> isIdentifierChar c" using T by blast
    define P where "P k = (case own_name (funs ! k) of None \<Rightarrow> [] | Some x \<Rightarrow> x @ lit ''_'') @ S1"
      for k
    have r: "unsanitized_name basename (funs ! k) state c = P k @ l # T @ decimal c" for k c
      using sp by (simp add: unsanitized_name_def P_def S_def)
    show ?thesis
      unfolding r ci_def [symmetric] cj_def [symmetric]
      using d t l' l' T' cnt by (rule babel_toIdentifier_counter_distinct)
  next
    case False
    then have S: "\<forall>c \<in> set S. isDigit c \<or> \<not> isIdentifierChar c" by blast
    have u: "isIdentifierChar 95" and o: "own_name (funs ! i) \<noteq> None \<or> own_name (funs ! j) \<noteq> None"
      using g False by blast+
    have u': "\<not> isDigit 95" by (simp add: isDigit_def)
    have plain: "?B (S @ decimal c) = lit ''_''" for c
      using S decimal_digits by (intro toIdentifier_no_letter) auto
    show ?thesis
    proof (cases "own_name (funs ! i)")
      case ni: None
      then obtain y where sj: "own_name (funs ! j) = Some y" using o by auto
      have "?B (y @ 95 # S @ decimal cj) \<noteq> lit ''_''"
        using d t u u' S by (rule babel_toIdentifier_not_underscore)
      then show ?thesis
        unfolding unnamed [OF ni] named [OF sj] ci_def [symmetric] cj_def [symmetric]
        by (simp only: plain) simp
    next
      case si: (Some x)
      show ?thesis
      proof (cases "own_name (funs ! j)")
        case nj: None
        have "?B (x @ 95 # S @ decimal ci) \<noteq> lit ''_''"
          using d t u u' S by (rule babel_toIdentifier_not_underscore)
        then show ?thesis
          unfolding unnamed [OF nj] named [OF si] ci_def [symmetric] cj_def [symmetric]
          by (simp only: plain) simp
      next
        case sj: (Some y)
        show ?thesis
          unfolding named [OF si] named [OF sj] ci_def [symmetric] cj_def [symmetric]
          using d t u u' u u' S cnt by (rule babel_toIdentifier_counter_distinct)
      qed
    qed
  qed
  have stem: "\<exists>stem p q. (p = [] \<or> p = lit ''_'') \<and> (q = [] \<or> q = lit ''_'')
               \<and> ?B ?ri = p @ stem @ decimal (workletNumber state + i)
               \<and> ?B ?rj = q @ stem @ decimal (workletNumber state + j)"
    if d: "\<forall>c. isDigit c \<longrightarrow> isIdentifierChar c \<and> toUpperCase c = [c]"
      and t: "\<forall>c. isIdentifierChar c \<and> \<not> isDigit c \<longrightarrow>
                 \<not> isSeparator c \<and> toUpperCase c \<noteq> []
                 \<and> \<not> isDigit (last (toUpperCase c))"
      and g: "\<exists>l \<in> set S. isIdentifierChar l \<and> \<not> isDigit l"
      and o: "own_name (funs ! i) = None" "own_name (funs ! j) = None"
  proof -
    from g obtain S1 l T where sp: "S = S1 @ l # T" and l: "isIdentifierChar l \<and> \<not> isDigit l"
      and T: "\<forall>c \<in> set T. \<not> (isIdentifierChar c \<and> \<not> isDigit c)"
      by (rule split_list_last_propE)
    have l': "isIdentifierChar l" "\<not> isDigit l" using l by simp_all
    have T': "\<forall>c \<in> set T. isDigit c \<or> \<not> isIdentifierChar c" using T by blast
    obtain Y where Y: "\<And>k. \<exists>p. (p = [] \<or> p = [95]) \<and>
        ?B (S1 @ l # T @ decimal k) = p @ Y @ filter isDigit T @ decimal k"
      using babel_toIdentifier_form [OF d t l' T', of isValidIdentifier S1] by blast
    obtain p where p: "p = [] \<or> p = lit ''_''"
        "?B (S @ decimal (workletNumber state + i)) =
           p @ (Y @ filter isDigit T) @ decimal (workletNumber state + i)"
      using Y [of "workletNumber state + i"] by (auto simp: sp lit_underscore)
    obtain q where q: "q = [] \<or> q = lit ''_''"
        "?B (S @ decimal (workletNumber state + j)) =
           q @ (Y @ filter isDigit T) @ decimal (workletNumber state + j)"
      using Y [of "workletNumber state + j"] by (auto simp: sp lit_underscore)
    show ?thesis
      unfolding unnamed [OF o(1)] unnamed [OF o(2)] using p q by blast
  qed
  have collide: "?B ?ri = lit ''_'' \<and> ?B ?rj = lit ''_''"
    if S: "\<forall>c \<in> set S. isDigit c \<or> \<not> isIdentifierChar c"
      and o: "own_name (funs ! i) = None" "own_name (funs ! j) = None"
  proof -
    have "?B (S @ decimal c) = lit ''_''" for c
      using S decimal_digits by (intro toIdentifier_no_letter) auto
    then show ?thesis
      unfolding unnamed [OF o(1)] unnamed [OF o(2)] by simp
  qed
  have c1: "makeWorkletName toIdentifier basename fun_nd state =
           (toIdentifier (unsanitized_name basename fun_nd state (workletNumber state)),
            state\<lparr>workletNumber := workletNumber state + 1\<rparr>)"
    by (rule makeWorkletName_unsanitized)
  have c5: "own_name (funs ! i) = None \<and> own_name (funs ! j) = None \<longrightarrow>
            ?ri = source_name basename state @ decimal (workletNumber state + i)
          \<and> ?rj = source_name basename state @ decimal (workletNumber state + j)"
    by (simp add: unsanitized_name_def)
  have c6: "toIdentifier = ?B
          \<and> (\<forall>c. isDigit c \<longrightarrow> isIdentifierChar c \<and> toUpperCase c = [c])
          \<and> (\<forall>c. isIdentifierChar c \<and> \<not> isDigit c \<longrightarrow>
                 \<not> isSeparator c \<and> toUpperCase c \<noteq> []
                 \<and> \<not> isDigit (last (toUpperCase c)))
          \<and> ((\<exists>l \<in> set (source_name basename state). isIdentifierChar l \<and> \<not> isDigit l)
             \<or> isIdentifierChar 95
                \<and> (own_name (funs ! i) \<noteq> None \<or> own_name (funs ! j) \<noteq> None)) \<longrightarrow>
            fst (name_worklets toIdentifier basename funs state) ! i \<noteq>
            fst (name_worklets toIdentifier basename funs state) ! j"
    unfolding ni nj using babel unfolding S_def by blast
  have c7: "toIdentifier = ?B
          \<and> (\<forall>c \<in> set (source_name basename state). isDigit c \<or> \<not> isIdentifierChar c)
          \<and> own_name (funs ! i) = None \<and> own_name (funs ! j) = None \<longrightarrow>
            fst (name_worklets toIdentifier basename funs state) ! i = lit ''_''
          \<and> fst (name_worklets toIdentifier basename funs state) ! j = lit ''_''"
    unfolding ni nj using collide unfolding S_def by blast
  have c8: "toIdentifier = ?B
          \<and> (\<forall>c. isDigit c \<longrightarrow> isIdentifierChar c \<and> toUpperCase c = [c])
          \<and> (\<forall>c. isIdentifierChar c \<and> \<not> isDigit c \<longrightarrow>
                 \<not> isSeparator c \<and> toUpperCase c \<noteq> []
                 \<and> \<not> isDigit (last (toUpperCase c)))
          \<and> (\<exists>l \<in> set (source_name basename state). isIdentifierChar l \<and> \<not> isDigit l)
          \<and> own_name (funs ! i) = None \<and> own_name (funs ! j) = None \<longrightarrow>
            (\<exists>stem p q. (p = [] \<or> p = lit ''_'') \<and> (q = [] \<or> q = lit ''_'')
               \<and> fst (name_worklets toIdentifier basename funs state) ! i =
                   p @ stem @ decimal (workletNumber state + i)
               \<and> fst (name_worklets toIdentifier basename funs state) ! j =
                   q @ stem @ decimal (workletNumber state + j))"
    unfolding ni nj using stem unfolding S_def by blast
  show ?thesis
    using c1 ni nj ne c5 c6 c8 c7 by (intro conjI)
qed

theorem worklet_names_in_one_file_witness:
  "(0 :: nat) < 2
   \<and> 2 < length [ArrowFunctionExpression, FunctionExpression (Some (lit ''foo'')),
                  ArrowFunctionExpression]
   \<and> fst (name_worklets ascii_toIdentifier posix_basename
        [ArrowFunctionExpression, FunctionExpression (Some (lit ''foo'')),
         ArrowFunctionExpression] library_file_state) ! 0 = lit ''lib_AppJs9''
   \<and> fst (name_worklets ascii_toIdentifier posix_basename
        [ArrowFunctionExpression, FunctionExpression (Some (lit ''foo'')),
         ArrowFunctionExpression] library_file_state) ! 2 = lit ''lib_AppJs11''
   \<and> fst (name_worklets ascii_toIdentifier posix_basename
        [ArrowFunctionExpression, FunctionExpression (Some (lit ''foo'')),
         ArrowFunctionExpression] library_file_state) ! 0 \<noteq>
     fst (name_worklets ascii_toIdentifier posix_basename
        [ArrowFunctionExpression, FunctionExpression (Some (lit ''foo'')),
         ArrowFunctionExpression] library_file_state) ! 2
   \<and> fst (name_worklets ascii_toIdentifier posix_basename
        [ArrowFunctionExpression, FunctionExpression (Some (lit ''foo'')),
         ArrowFunctionExpression] digits_file_state) ! 0 = lit ''_''
   \<and> fst (name_worklets ascii_toIdentifier posix_basename
        [ArrowFunctionExpression, FunctionExpression (Some (lit ''foo'')),
         ArrowFunctionExpression] digits_file_state) ! 2 = lit ''_''
   \<and> (0 :: nat) < 1
   \<and> fst (name_worklets ascii_toIdentifier posix_basename
        [ArrowFunctionExpression, FunctionExpression (Some (lit ''foo'')),
         ArrowFunctionExpression] digits_file_state) ! 0 \<noteq>
     fst (name_worklets ascii_toIdentifier posix_basename
        [ArrowFunctionExpression, FunctionExpression (Some (lit ''foo'')),
         ArrowFunctionExpression] digits_file_state) ! 1"
proof -
  let ?funs = "[ArrowFunctionExpression, FunctionExpression (Some (lit ''foo'')),
                ArrowFunctionExpression]"
  have h: "(0 :: nat) < 2" "2 < length ?funs" by simp_all
  have h': "(0 :: nat) < 1" "1 < length ?funs" by simp_all
  have u0: "unsanitized_name posix_basename (?funs ! 0) library_file_state
              (workletNumber library_file_state + 0) = lit ''lib_App.js9''"
    by code_simp
  have u2: "unsanitized_name posix_basename (?funs ! 2) library_file_state
              (workletNumber library_file_state + 2) = lit ''lib_App.js11''"
    by code_simp
  have t0: "ascii_toIdentifier (lit ''lib_App.js9'') = lit ''lib_AppJs9''"
    by code_simp
  have t2: "ascii_toIdentifier (lit ''lib_App.js11'') = lit ''lib_AppJs11''"
    by code_simp
  have o: "own_name (?funs ! 0) = None" "own_name (?funs ! 2) = None"
          "own_name (?funs ! 1) \<noteq> None"
    by simp_all
  have sl: "source_name posix_basename library_file_state = lit ''lib_App.js''"
    by code_simp
  have "(115 :: 16 word) \<in> set (lit ''lib_App.js'')"
       "ascii_isIdentifierChar 115" "\<not> isDigit 115"
    by (simp_all add: lit_def ascii_isIdentifierChar_def isDigit_def)
  then have letter: "\<exists>l \<in> set (source_name posix_basename library_file_state).
                       ascii_isIdentifierChar l \<and> \<not> isDigit l"
    unfolding sl by (rule_tac x = 115 in bexI) simp_all
  have sd: "source_name posix_basename digits_file_state = lit ''2024''"
    by code_simp
  have no_letter: "\<forall>c \<in> set (source_name posix_basename digits_file_state).
                     isDigit c \<or> \<not> ascii_isIdentifierChar c"
    unfolding sd by (simp add: lit_def isDigit_def)
  note L = worklet_names_in_one_file [OF h,
            where toIdentifier = ascii_toIdentifier and basename = posix_basename
              and state = library_file_state and fun_nd = ArrowFunctionExpression
              and isIdentifierChar = ascii_isIdentifierChar
              and isValidIdentifier = ascii_isValidIdentifier
              and toUpperCase = ascii_toUpperCase]
  note D = worklet_names_in_one_file [OF h,
            where toIdentifier = ascii_toIdentifier and basename = posix_basename
              and state = digits_file_state and fun_nd = ArrowFunctionExpression
              and isIdentifierChar = ascii_isIdentifierChar
              and isValidIdentifier = ascii_isValidIdentifier
              and toUpperCase = ascii_toUpperCase]
  note N = worklet_names_in_one_file [OF h',
            where toIdentifier = ascii_toIdentifier and basename = posix_basename
              and state = digits_file_state and fun_nd = ArrowFunctionExpression
              and isIdentifierChar = ascii_isIdentifierChar
              and isValidIdentifier = ascii_isValidIdentifier
              and toUpperCase = ascii_toUpperCase]
  have n0: "fst (name_worklets ascii_toIdentifier posix_basename ?funs library_file_state) ! 0 =
              ascii_toIdentifier (unsanitized_name posix_basename (?funs ! 0) library_file_state
                (workletNumber library_file_state + 0))"
    using L by blast
  have n2: "fst (name_worklets ascii_toIdentifier posix_basename ?funs library_file_state) ! 2 =
              ascii_toIdentifier (unsanitized_name posix_basename (?funs ! 2) library_file_state
                (workletNumber library_file_state + 2))"
    using L by blast
  have diff:
    "fst (name_worklets ascii_toIdentifier posix_basename ?funs library_file_state) ! 0 \<noteq>
     fst (name_worklets ascii_toIdentifier posix_basename ?funs library_file_state) ! 2"
    using L ascii_digits ascii_letters letter by blast
  have same:
    "fst (name_worklets ascii_toIdentifier posix_basename ?funs digits_file_state) ! 0 = lit ''_''"
    "fst (name_worklets ascii_toIdentifier posix_basename ?funs digits_file_state) ! 2 = lit ''_''"
    using D no_letter o(1,2) by blast+
  have named:
    "fst (name_worklets ascii_toIdentifier posix_basename ?funs digits_file_state) ! 0 \<noteq>
     fst (name_worklets ascii_toIdentifier posix_basename ?funs digits_file_state) ! 1"
    using N ascii_digits ascii_letters ascii_underscore o(3) by blast
  show ?thesis
    using h h'(1) diff same named n0 [unfolded u0 t0] n2 [unfolded u2 t2] by (intro conjI)
qed

subsection \<open>The wrapper\<close>

text \<open>What a call that returns has passed, and what it returns.\<close>

lemma makeWorkletFactory_Inr:
  assumes "makeWorkletFactory env fn state = Inr r"
  obtains filepath ast funExpr where
    "filename state = Some filepath" "filepath \<noteq> []"
    "env_transformed env = Some (Some ast)"
    "factory_funString env fn state ast \<noteq> []"
    "fn_under_program fn"
    "funExpression fn = Inr funExpr"
    "newFun r = functionExpression None []
        (blockStatement
           (wrapper_statements (env_isRelease env) (\<not> omitNativeOnlyData state)
              (identifier_expr (factory_functionName env fn state)) funExpr
              (captured_variables env fn ast) (hash (factory_funString env fn state ast))
              (factory_initDataId env fn state ast)
              (lineOffset (captured_variables env fn ast))))
        False False"
    "insertedBefore r =
       (if \<not> omitNativeOnlyData state
        then [variableDeclaration (lit ''const'')
                [variableDeclarator (Id (factory_initDataId env fn state ast))
                   (initDataObjectExpression env state filepath (factory_funString env fn state ast)
                      (factory_sourceMapString env fn state ast))]]
        else [])"
    "state_after r = state\<lparr>workletNumber := workletNumber state + 1\<rparr>"
  using assms
  by (auto simp: makeWorkletFactory_def Let_def factory_functionName_def factory_funString_def
        factory_sourceMapString_def factory_initDataId_def makeWorkletName_unsanitized
      split: option.splits if_splits sum.splits)

lemma makeWorkletFactory_returns:
  assumes "filename state = Some filepath" "filepath \<noteq> []"
    "env_transformed env = Some (Some ast)"
    "factory_funString env fn state ast \<noteq> []"
    "fn_under_program fn"
    "funExpression fn = Inr funExpr"
  shows "\<exists>r. makeWorkletFactory env fn state = Inr r"
  using assms
  by (simp add: makeWorkletFactory_def Let_def factory_functionName_def factory_funString_def)

lemma property_names_append:
  "property_names (xs @ ys) = property_names xs @ property_names ys"
  by (induction xs) (simp_all add: property_names_def map_filter_simps split: option.splits)

lemma lit_names_distinct:
  "lit ''code'' \<noteq> lit ''location''" "lit ''code'' \<noteq> lit ''version''"
  "lit ''sourceMap'' \<noteq> lit ''location''" "lit ''sourceMap'' \<noteq> lit ''version''"
  "lit ''__closure'' \<noteq> lit ''__initData''" "lit ''__workletHash'' \<noteq> lit ''__initData''"
  "lit ''__stackDetails'' \<noteq> lit ''__initData''"
  by (simp_all add: lit_def)

lemma release_metadata_fields:
  "env_isRelease env \<Longrightarrow>
   \<exists>properties. initDataObjectExpression env state filepath funString sourceMapString =
                   objectExpression properties
     \<and> lit ''code'' \<in> set (property_names properties)
     \<and> lit ''location'' \<notin> set (property_names properties)
     \<and> lit ''version'' \<notin> set (property_names properties)"
  by (cases sourceMapString)
     (simp_all add: initDataObjectExpression_def Let_def property_names_def map_filter_simps
        identifier_expr_def lit_names_distinct lit_names_distinct [symmetric])

lemma attached_without_initData:
  "lit ''__initData'' \<notin> set (List.map_filter attached_property
      (wrapper_statements release False functionIdentifier funExpr variables workletHash
         initDataId line_offset))"
  by (simp add: wrapper_statements_def Let_def map_filter_simps identifier_expr_def
        lit_names_distinct lit_names_distinct [symmetric])

lemma example_returns:
  "filename state = Some (lit ''/app/node_modules/lib/App.js'') \<Longrightarrow>
   \<exists>r. makeWorkletFactory (example_environment release) example_worklet state = Inr r"
proof (rule makeWorkletFactory_returns)
  show "filename state = Some (lit ''/app/node_modules/lib/App.js'') \<Longrightarrow>
        filename state = Some (lit ''/app/node_modules/lib/App.js'')" .
  show "lit ''/app/node_modules/lib/App.js'' \<noteq> []" by (simp add: lit_def)
  show "env_transformed (example_environment release) = Some (Some [ref_x_first, ref_x_second])"
    by (simp add: example_environment_def)
  show "factory_funString (example_environment release) example_worklet state
          [ref_x_first, ref_x_second] \<noteq> []"
    by (simp add: factory_funString_def example_environment_def lit_def)
  show "fn_under_program example_worklet" by (simp add: example_worklet_def)
  show "funExpression example_worklet =
          Inr (functionExpression None [] (blockStatement [returnStatement (Id (node ref_x_first))])
                 False False)"
    by (simp add: funExpression_def example_worklet_def)
qed

text \<open>
  Claim C4. When \<^verbatim>\<open>omitNativeOnlyData\<close> is set, no init-data constant is inserted and no
  \<^verbatim>\<open>__initData\<close> property is attached in the wrapper, in release and in development
  alike; when only release mode is set, the init-data object that is inserted has the
  field \<^verbatim>\<open>code\<close> and neither \<^verbatim>\<open>location\<close> nor \<^verbatim>\<open>version\<close>.
\<close>

theorem metadata_suppression:
  assumes "makeWorkletFactory env fn state = Inr r"
  shows "(omitNativeOnlyData state \<longrightarrow>
            insertedBefore r = [] \<and> lit ''__initData'' \<notin> set (attached_properties (newFun r)))
       \<and> (\<not> omitNativeOnlyData state \<and> env_isRelease env \<longrightarrow>
            (\<exists>initDataId properties.
               insertedBefore r =
                 [variableDeclaration (lit ''const'')
                    [variableDeclarator (Id initDataId) (objectExpression properties)]]
             \<and> lit ''code'' \<in> set (property_names properties)
             \<and> lit ''location'' \<notin> set (property_names properties)
             \<and> lit ''version'' \<notin> set (property_names properties)))"
proof -
  from assms obtain filepath ast funExpr where
    nf: "newFun r = functionExpression None []
        (blockStatement
           (wrapper_statements (env_isRelease env) (\<not> omitNativeOnlyData state)
              (identifier_expr (factory_functionName env fn state)) funExpr
              (captured_variables env fn ast) (hash (factory_funString env fn state ast))
              (factory_initDataId env fn state ast)
              (lineOffset (captured_variables env fn ast))))
        False False"
    and ins: "insertedBefore r =
       (if \<not> omitNativeOnlyData state
        then [variableDeclaration (lit ''const'')
                [variableDeclarator (Id (factory_initDataId env fn state ast))
                   (initDataObjectExpression env state filepath (factory_funString env fn state ast)
                      (factory_sourceMapString env fn state ast))]]
        else [])"
    by (rule makeWorkletFactory_Inr)
  have a: "insertedBefore r = [] \<and> lit ''__initData'' \<notin> set (attached_properties (newFun r))"
    if "omitNativeOnlyData state"
    using that ins nf attached_without_initData by (simp add: attached_properties_def)
  have b: "\<exists>initDataId properties.
               insertedBefore r =
                 [variableDeclaration (lit ''const'')
                    [variableDeclarator (Id initDataId) (objectExpression properties)]]
             \<and> lit ''code'' \<in> set (property_names properties)
             \<and> lit ''location'' \<notin> set (property_names properties)
             \<and> lit ''version'' \<notin> set (property_names properties)"
    if "\<not> omitNativeOnlyData state" "env_isRelease env"
    using that ins
      release_metadata_fields [of env state filepath "factory_funString env fn state ast"
        "factory_sourceMapString env fn state ast"]
    by auto
  show ?thesis using a b by blast
qed

theorem metadata_suppression_witness:
  "(\<exists>r. makeWorkletFactory (example_environment False) example_worklet omitting_state = Inr r
        \<and> omitNativeOnlyData omitting_state
        \<and> insertedBefore r = []
        \<and> lit ''__initData'' \<notin> set (attached_properties (newFun r)))
   \<and> (\<exists>r initDataId properties.
        makeWorkletFactory (example_environment True) example_worklet library_file_state = Inr r
        \<and> \<not> omitNativeOnlyData library_file_state
        \<and> env_isRelease (example_environment True)
        \<and> insertedBefore r =
             [variableDeclaration (lit ''const'')
                [variableDeclarator (Id initDataId) (objectExpression properties)]]
        \<and> lit ''code'' \<in> set (property_names properties)
        \<and> lit ''location'' \<notin> set (property_names properties)
        \<and> lit ''version'' \<notin> set (property_names properties))"
proof -
  have o: "omitNativeOnlyData omitting_state"
    by (simp add: omitting_state_def)
  obtain r1 where r1: "makeWorkletFactory (example_environment False) example_worklet
                         omitting_state = Inr r1"
    using example_returns [of omitting_state False]
    by (auto simp: omitting_state_def library_file_state_def)
  have n: "\<not> omitNativeOnlyData library_file_state" "env_isRelease (example_environment True)"
    by (simp_all add: library_file_state_def example_environment_def)
  obtain r2 where r2: "makeWorkletFactory (example_environment True) example_worklet
                         library_file_state = Inr r2"
    using example_returns [of library_file_state True]
    by (auto simp: library_file_state_def)
  show ?thesis
    using metadata_suppression [OF r1] metadata_suppression [OF r2] o n r1 r2
    by blast
qed



text \<open>
  Claim C9. In development the first statement declares \<^verbatim>\<open>_e\<close> as an array of
  \<^verbatim>\<open>new global.Error()\<close>, a line offset and the column correction \<open>- 27\<close>; the line offset
  is 1 when nothing is captured and \<open>1 - (n + 2)\<close> for \<open>n \<ge> 1\<close> captured variables.
\<close>

theorem diagnostic_anchor:
  assumes "makeWorkletFactory env fn state = Inr r" and "\<not> env_isRelease env"
  shows "\<exists>ast rest.
     env_transformed env = Some (Some ast) \<and>
     (let n = int (length (captured_variables env fn ast)) in
      wrapper_body (newFun r) =
        variableDeclaration (lit ''const'')
          [variableDeclarator (identifier_expr (lit ''_e''))
             (arrayExpression
                [newExpression
                   (memberExpression (identifier_expr (lit ''global''))
                      (identifier_expr (lit ''Error'')) False) [],
                 numericLiteral (if n = 0 then 1 else 1 - (n + 2)),
                 numericLiteral (- 27)])]
        # rest)"
proof -
  from assms(1) obtain filepath ast funExpr where
    tr: "env_transformed env = Some (Some ast)"
    and nf: "newFun r = functionExpression None []
        (blockStatement
           (wrapper_statements (env_isRelease env) (\<not> omitNativeOnlyData state)
              (identifier_expr (factory_functionName env fn state)) funExpr
              (captured_variables env fn ast) (hash (factory_funString env fn state ast))
              (factory_initDataId env fn state ast)
              (lineOffset (captured_variables env fn ast))))
        False False"
    by (rule makeWorkletFactory_Inr)
  show ?thesis
    apply (rule exI [of _ ast])
    using tr nf assms(2)
    apply (simp add: wrapper_statements_def Let_def lineOffset_def)
    done
qed

theorem diagnostic_anchor_witness:
  "\<exists>r rest.
      makeWorkletFactory (example_environment False) example_worklet library_file_state = Inr r
    \<and> \<not> env_isRelease (example_environment False)
    \<and> wrapper_body (newFun r) =
        variableDeclaration (lit ''const'')
          [variableDeclarator (identifier_expr (lit ''_e''))
             (arrayExpression
                [newExpression
                   (memberExpression (identifier_expr (lit ''global''))
                      (identifier_expr (lit ''Error'')) False) [],
                 numericLiteral (- 2),
                 numericLiteral (- 27)])]
        # rest"
proof -
  obtain r where r: "makeWorkletFactory (example_environment False) example_worklet
                       library_file_state = Inr r"
    using example_returns [of library_file_state False]
    by (auto simp: library_file_state_def)
  have d: "\<not> env_isRelease (example_environment False)"
    by (simp add: example_environment_def)
  have t: "env_transformed (example_environment False) = Some (Some [ref_x_first, ref_x_second])"
    by (simp add: example_environment_def)
  have l: "length (captured_variables (example_environment False) example_worklet
                     [ref_x_first, ref_x_second]) = 1"
    by code_simp
  show ?thesis
    using diagnostic_anchor [OF r d] r d t l
    by (auto simp: Let_def)
qed

end
